theory Spec2Isabelle
  imports Main "HOL-Library.Multiset"
begin

section \<open>Transport replies and the response parser\<close>

text \<open>
  The verifier (\<^verbatim>\<open>src/index.js\<close>) speaks enough SMTP to see how a mail host reacts to
  \<^verbatim>\<open>RCPT TO\<close>. Strings are lists of characters; every character used by the code's
  tables and patterns is ASCII.
\<close>

text \<open>The object \<^verbatim>\<open>{ code, message }\<close> returned by \<^verbatim>\<open>parseSMTPResponse\<close> and built
  as a sentinel inside \<^verbatim>\<open>smtpProbe\<close>.\<close>

record smtp_reply =
  code :: nat
  message :: string

definition CR :: char where
  "CR = CHR 0x0D"

definition LF :: char where
  "LF = CHR 0x0A"

text \<open>\<^verbatim>\<open>text.split(/\r\n|\n/)\<close>: at each position the pattern tries \<^verbatim>\<open>\r\n\<close> first and
  then \<^verbatim>\<open>\n\<close>; a carriage return that is not followed by a line feed stays in its line.
  The result always has at least one element.\<close>

fun split_lines :: "string \<Rightarrow> string list" where
  "split_lines [] = [[]]"
| "split_lines [c] = (if c = LF then [[], []] else [[c]])"
| "split_lines (c # d # cs) =
     (if c = CR \<and> d = LF then [] # split_lines cs
      else if c = LF then [] # split_lines (d # cs)
      else (case split_lines (d # cs) of
              l # ls \<Rightarrow> (c # l) # ls
            | [] \<Rightarrow> [[c]]))"

text \<open>\<^verbatim>\<open>\d\<close>: one of the ten ASCII digits.\<close>

definition is_digit :: "char \<Rightarrow> bool" where
  "is_digit c = (48 \<le> (of_char c :: nat) \<and> (of_char c :: nat) \<le> 57)"

definition digit_val :: "char \<Rightarrow> nat" where
  "digit_val c = of_char c - 48"

text \<open>\<^verbatim>\<open>lines[i].match(/^(\d{3})[ -](.*)/)\<close> followed by \<^verbatim>\<open>parseInt(m[1], 10)\<close>: the line
  matches when it begins with three digits and a space or a hyphen (the rest may be
  empty); the value is the number the three digits spell.\<close>

fun match_line :: "string \<Rightarrow> nat option" where
  "match_line (a # b # c # s # rest) =
     (if is_digit a \<and> is_digit b \<and> is_digit c \<and> (s = CHR '' '' \<or> s = CHR ''-'')
      then Some (100 * digit_val a + 10 * digit_val b + digit_val c)
      else None)"
| "match_line _ = None"

text \<open>The loop \<^verbatim>\<open>for (let i = lines.length - 1; i >= 0; i--)\<close>, run over the reversed
  list: the first line that matches decides.\<close>

fun scan_back :: "string list \<Rightarrow> nat option" where
  "scan_back [] = None"
| "scan_back (l # ls) = (case match_line l of Some n \<Rightarrow> Some n | None \<Rightarrow> scan_back ls)"

text \<open>\<^verbatim>\<open>lines.join('\n')\<close>.\<close>

fun join_lines :: "string list \<Rightarrow> string" where
  "join_lines [] = []"
| "join_lines [l] = l"
| "join_lines (l # m # ls) = l @ LF # join_lines (m # ls)"

text \<open>\<^verbatim>\<open>text.split(/\r\n|\n/).filter(Boolean)\<close>: the empty lines are dropped.\<close>

definition reply_lines :: "string \<Rightarrow> string list" where
  "reply_lines text = filter (\<lambda>l. l \<noteq> []) (split_lines text)"

text \<open>\<^verbatim>\<open>parseSMTPResponse\<close>; \<open>None\<close> is the JavaScript \<^verbatim>\<open>null\<close>.\<close>

definition parseSMTPResponse :: "string \<Rightarrow> smtp_reply option" where
  "parseSMTPResponse text =
     (let lines = reply_lines text in
      case scan_back (rev lines) of
        Some n \<Rightarrow> Some \<lparr>code = n, message = join_lines lines\<rparr>
      | None \<Rightarrow> None)"


section \<open>The resolver\<close>

text \<open>One record of the array \<^verbatim>\<open>dns.resolveMx\<close> resolves with.\<close>

record mx_record =
  exchange :: string
  priority :: nat

text \<open>What one call of \<^verbatim>\<open>verifyEmail\<close> does to the outside world, in order: the DNS
  queries and the SMTP sessions (host, port, sender, recipient).\<close>

datatype io = Dns_mx string | Dns_a string | Dns_aaaa string | Smtp string nat string string

text \<open>What a socket delivers to one \<^verbatim>\<open>smtpProbe\<close> session, one event per callback that
  Node runs: \<^verbatim>\<open>'connect'\<close>, \<^verbatim>\<open>'data'\<close> with its chunk, \<^verbatim>\<open>'error'\<close> with the error's
  message, the session's 8000 ms timer, the callback of a \<^verbatim>\<open>socket.write\<close> (with the
  error's message when the write failed, and the value of \<^verbatim>\<open>Date.now()\<close> there), and
  the 50 ms poll timer of \<^verbatim>\<open>waitGreeting\<close> and \<^verbatim>\<open>waitResp\<close> (with \<^verbatim>\<open>Date.now()\<close>).
  The last event is the peer closing its side of the connection: \<^verbatim>\<open>smtpProbe\<close> registers
  no listener for \<^verbatim>\<open>'end'\<close> or \<^verbatim>\<open>'close'\<close>, so none of its callbacks runs then.\<close>

datatype event =
    Connected
  | Data string
  | Socket_error string
  | Timer_fired
  | Write_done "string option" int
  | Poll int
  | Peer_closed

text \<open>The outside world of one verification. A DNS promise either rejects (\<open>Inl\<close>, with
  the error code) or resolves with a list. The events of an SMTP session may depend on
  everything done before (\<open>io list\<close>), so a host may answer the same recipient differently
  the second time. \<open>dateNow\<close> is \<^verbatim>\<open>Date.now()\<close> and \<open>random1000\<close> is
  \<^verbatim>\<open>Math.floor(Math.random() * 1000)\<close> at that point.\<close>

record env =
  resolveMx :: "string \<Rightarrow> string + mx_record list"
  resolve4 :: "string \<Rightarrow> string + string list"
  resolve6 :: "string \<Rightarrow> string + string list"
  network :: "io list \<Rightarrow> string \<Rightarrow> nat \<Rightarrow> string \<Rightarrow> string \<Rightarrow> event list"
  dateNow :: "io list \<Rightarrow> nat"
  random1000 :: "io list \<Rightarrow> nat"

text \<open>\<^verbatim>\<open>m.exchange.replace(/\.$/, '')\<close>: one dot at the very end is removed.\<close>

definition strip_root_dot :: "string \<Rightarrow> string" where
  "strip_root_dot h = (if h \<noteq> [] \<and> last h = CHR ''.'' then butlast h else h)"

text \<open>\<^verbatim>\<open>getMxHosts\<close>, with the queries it made. \<^verbatim>\<open>mx.sort((a, b) => a.priority - b.priority)\<close>
  is a stable sort by priority, as \<^const>\<open>sort_key\<close> is. The outer \<^verbatim>\<open>catch\<close> is entered only
  when \<^verbatim>\<open>resolveMx\<close> rejects; the inner \<^verbatim>\<open>try\<close> holds both address lookups, so a rejected
  \<^verbatim>\<open>resolve4\<close> leaves it before \<^verbatim>\<open>resolve6\<close> is asked.\<close>

definition getMxHosts :: "env \<Rightarrow> string \<Rightarrow> string list \<times> io list" where
  "getMxHosts e domain =
     (case resolveMx e domain of
        Inr mx \<Rightarrow>
          if mx = [] then ([], [Dns_mx domain])
          else (map (\<lambda>m. strip_root_dot (exchange m)) (sort_key priority mx), [Dns_mx domain])
      | Inl _ \<Rightarrow>
          (case resolve4 e domain of
             Inl _ \<Rightarrow> ([], [Dns_mx domain, Dns_a domain])
           | Inr a \<Rightarrow>
               if a \<noteq> [] then ([domain], [Dns_mx domain, Dns_a domain])
               else (case resolve6 e domain of
                       Inl _ \<Rightarrow> ([], [Dns_mx domain, Dns_a domain, Dns_aaaa domain])
                     | Inr a6 \<Rightarrow>
                         if a6 \<noteq> [] then ([domain], [Dns_mx domain, Dns_a domain, Dns_aaaa domain])
                         else ([], [Dns_mx domain, Dns_a domain, Dns_aaaa domain]))))"

section \<open>The probe session\<close>

text \<open>The object \<^verbatim>\<open>{ host, rcpt }\<close> the promise of \<^verbatim>\<open>smtpProbe\<close> resolves with.\<close>

record probe_result =
  host :: string
  rcpt :: smtp_reply

datatype command = EHLO | MAIL_FROM | RCPT_TO

text \<open>Where the \<^verbatim>\<open>async\<close> handler of \<^verbatim>\<open>'connect'\<close> is suspended: not started, polling
  for the greeting, waiting for the callback of a command's \<^verbatim>\<open>socket.write\<close>, polling for
  a command's reply (with the \<^verbatim>\<open>start\<close> time of \<^verbatim>\<open>sendCmd\<close>), or run to its end.\<close>

datatype stage =
    Connecting
  | Wait_greeting
  | Wait_write command
  | Wait_resp command int
  | Finished

text \<open>The variables of one \<^verbatim>\<open>smtpProbe\<close> call: its arguments, \<^verbatim>\<open>buffer\<close>, \<^verbatim>\<open>closed\<close>,
  whether \<^verbatim>\<open>timer\<close> is still pending, the value the promise was resolved with, the stage
  of the handler; and what was done to the socket: the number of \<^verbatim>\<open>socket.end()\<close> calls
  and the strings written.\<close>

record session =
  target :: string
  sender :: string
  recipient :: string
  buffer :: string
  closed :: bool
  ended :: nat
  timer :: bool
  resolved :: "probe_result option"
  stage :: stage
  written :: "string list"

definition TIMEOUT :: int where
  "TIMEOUT = 8000"

definition init :: "string \<Rightarrow> string \<Rightarrow> string \<Rightarrow> session" where
  "init h f t =
     \<lparr>target = h, sender = f, recipient = t, buffer = [], closed = False, ended = 0,
      timer = True, resolved = None, stage = Connecting, written = []\<rparr>"

text \<open>\<^verbatim>\<open>cleanup()\<close>: \<^verbatim>\<open>socket.end()\<close> is called the first time only.\<close>

definition cleanup :: "session \<Rightarrow> session" where
  "cleanup s = (if \<not> closed s then s\<lparr>closed := True, ended := Suc (ended s)\<rparr> else s)"

text \<open>\<^verbatim>\<open>resolve(v)\<close>: a promise keeps the first value it is resolved with.\<close>

definition resolve :: "smtp_reply \<Rightarrow> session \<Rightarrow> session" where
  "resolve r s =
     (if resolved s = None then s\<lparr>resolved := Some \<lparr>host = target s, rcpt = r\<rparr>\<rparr> else s)"

definition clearTimeout :: "session \<Rightarrow> session" where
  "clearTimeout s = s\<lparr>timer := False\<rparr>"

definition sentinel :: "string \<Rightarrow> smtp_reply" where
  "sentinel msg = \<lparr>code = 0, message = msg\<rparr>"

text \<open>The test \<^verbatim>\<open>parsed && parsed.code\<close> of both polling loops: a parsed reply whose
  code is 0 counts as no reply yet.\<close>

definition awaited :: "string \<Rightarrow> smtp_reply option" where
  "awaited buf =
     (case parseSMTPResponse buf of
        Some parsed \<Rightarrow> if code parsed \<noteq> 0 then Some parsed else None
      | None \<Rightarrow> None)"

definition command_text :: "command \<Rightarrow> session \<Rightarrow> string" where
  "command_text c s =
     (case c of
        EHLO \<Rightarrow> ''EHLO verifier.example.com''
      | MAIL_FROM \<Rightarrow> ''MAIL FROM:<'' @ sender s @ ''>''
      | RCPT_TO \<Rightarrow> ''RCPT TO:<'' @ recipient s @ ''>'')"

text \<open>\<^verbatim>\<open>sendCmd(cmd)\<close> up to its \<^verbatim>\<open>socket.write\<close>: the buffer is emptied and the command
  written; the rest runs in the write's callback.\<close>

definition sendCmd :: "command \<Rightarrow> session \<Rightarrow> session" where
  "sendCmd c s =
     s\<lparr>buffer := [], written := written s @ [command_text c s @ [CR, LF]],
       stage := Wait_write c\<rparr>"

text \<open>The end of the handler's \<^verbatim>\<open>try\<close> block, with the reply \<^verbatim>\<open>rcpt\<close>.\<close>

definition finish :: "smtp_reply \<Rightarrow> session \<Rightarrow> session" where
  "finish r s =
     resolve r (cleanup (clearTimeout
       (s\<lparr>written := written s @ [''RSET'' @ [CR, LF], ''QUIT'' @ [CR, LF]],
          stage := Finished\<rparr>)))"

text \<open>The handler's \<^verbatim>\<open>catch (err)\<close> block.\<close>

definition protocol_error :: "string \<Rightarrow> session \<Rightarrow> session" where
  "protocol_error err s =
     resolve (sentinel (''protocol_error: '' @ err)) (cleanup (clearTimeout (s\<lparr>stage := Finished\<rparr>)))"

text \<open>What the handler does when the promise of \<^verbatim>\<open>sendCmd\<close> settles, rejected with an
  error's message (\<open>Inl\<close>) or resolved with a reply (\<open>Inr\<close>): the \<^verbatim>\<open>.catch(() => {})\<close>
  after EHLO goes on either way, a rejected MAIL FROM is thrown into the \<^verbatim>\<open>catch\<close> block,
  a rejected RCPT TO becomes \<^verbatim>\<open>{ code: 0, message: err.message }\<close>.\<close>

fun command_done :: "command \<Rightarrow> string + smtp_reply \<Rightarrow> session \<Rightarrow> session" where
  "command_done EHLO _ s = sendCmd MAIL_FROM s"
| "command_done MAIL_FROM (Inr _) s = sendCmd RCPT_TO s"
| "command_done MAIL_FROM (Inl err) s = protocol_error err s"
| "command_done RCPT_TO (Inr parsed) s = finish parsed s"
| "command_done RCPT_TO (Inl err) s = finish \<lparr>code = 0, message = err\<rparr> s"

text \<open>One run of \<^verbatim>\<open>waitResp\<close> at time \<open>now\<close>.\<close>

definition waitResp :: "command \<Rightarrow> int \<Rightarrow> int \<Rightarrow> session \<Rightarrow> session" where
  "waitResp c start now s =
     (case awaited (buffer s) of
        Some parsed \<Rightarrow> command_done c (Inr parsed) s
      | None \<Rightarrow>
          if now - start > TIMEOUT then command_done c (Inl ''smtp command timeout'') s
          else s\<lparr>stage := Wait_resp c start\<rparr>)"

text \<open>One run of \<^verbatim>\<open>waitGreeting\<close>: any parsed code lets the handler go on to EHLO.\<close>

definition waitGreeting :: "session \<Rightarrow> session" where
  "waitGreeting s =
     (case awaited (buffer s) of
        Some parsed \<Rightarrow> sendCmd EHLO s
      | None \<Rightarrow> s\<lparr>stage := Wait_greeting\<rparr>)"

text \<open>The callbacks of \<^verbatim>\<open>smtpProbe\<close>, one event each. An awaited promise that settles
  inside a callback resumes the handler before Node runs the next callback, so each is
  one step.\<close>

fun step :: "event \<Rightarrow> session \<Rightarrow> session" where
  "step Connected s = (if stage s = Connecting then waitGreeting s else s)"
| "step (Data chunk) s = s\<lparr>buffer := buffer s @ chunk\<rparr>"
| "step (Socket_error msg) s =
     resolve (sentinel (''socket_error: '' @ msg)) (cleanup (clearTimeout s))"
| "step Timer_fired s =
     (if timer s then resolve (sentinel ''timeout'') (cleanup (s\<lparr>timer := False\<rparr>)) else s)"
| "step (Write_done err now) s =
     (case stage s of
        Wait_write c \<Rightarrow>
          (case err of
             Some msg \<Rightarrow> command_done c (Inl msg) s
           | None \<Rightarrow> waitResp c now now s)
      | _ \<Rightarrow> s)"
| "step (Poll now) s =
     (case stage s of
        Wait_greeting \<Rightarrow> waitGreeting s
      | Wait_resp c start \<Rightarrow> waitResp c start now s
      | _ \<Rightarrow> s)"
| "step Peer_closed s = s"

fun run :: "session \<Rightarrow> event list \<Rightarrow> session" where
  "run s [] = s"
| "run s (e # es) = run (step e s) es"

text \<open>\<^verbatim>\<open>await smtpProbe(host, port, from, to)\<close>, given the events the socket delivers
  before the session's timer is due: after them the timer fires if it is still pending.
  \<open>None\<close> is a promise that never settles.\<close>

definition smtpProbe :: "string \<Rightarrow> nat \<Rightarrow> string \<Rightarrow> string \<Rightarrow> event list \<Rightarrow> probe_result option" where
  "smtpProbe h port f t evs = resolved (step Timer_fired (run (init h f t) evs))"

text \<open>What has become of the connection that \<^verbatim>\<open>net.createConnection\<close> opened, after the
  events \<open>evs\<close>, as Node documents its sockets: \<^verbatim>\<open>socket.end()\<close> half-closes the socket (it
  sends a FIN, and the socket and its descriptor stay until the peer ends its side too); an
  \<^verbatim>\<open>'error'\<close> is followed by \<^verbatim>\<open>'close'\<close>, the socket being destroyed; and when the peer
  ends its side, a socket without \<^verbatim>\<open>allowHalfOpen\<close> ends its own and is destroyed. The code
  never calls \<^verbatim>\<open>socket.destroy()\<close>.\<close>

datatype connection = Open | Half_closed | Released

fun tears_down :: "event \<Rightarrow> bool" where
  "tears_down (Socket_error msg) = True"
| "tears_down Peer_closed = True"
| "tears_down _ = False"

definition socket_state :: "string \<Rightarrow> string \<Rightarrow> string \<Rightarrow> event list \<Rightarrow> connection" where
  "socket_state h f t evs =
     (if list_ex tears_down evs then Released
      else if 0 < ended (run (init h f t) evs) then Half_closed
      else Open)"

section \<open>The verification engine\<close>

datatype classification =
    Invalid_format | Role_based | No_mx_record | Disposable
  | Valid | Catch_all | Invalid | Unknown

text \<open>The string \<^verbatim>\<open>verifyEmail\<close> returns.\<close>

fun label :: "classification \<Rightarrow> string" where
  "label Invalid_format = ''invalid_format''"
| "label Role_based = ''role_based''"
| "label No_mx_record = ''no_mx_record''"
| "label Disposable = ''disposable''"
| "label Valid = ''valid''"
| "label Catch_all = ''catch_all''"
| "label Invalid = ''invalid''"
| "label Unknown = ''unknown''"

definition roleBased :: "string list" where
  "roleBased =
     [''admin'', ''support'', ''info'', ''contact'', ''sales'',
      ''help'', ''billing'', ''webmaster'', ''security'']"

definition disposableDomains :: "string set" where
  "disposableDomains =
     {''tempmail.com'', ''10minutemail.com'', ''guerrillamail.com'',
      ''yopmail.com'', ''mailinator.com''}"

text \<open>\<^verbatim>\<open>s.split('@')\<close> for a one-character separator.\<close>

fun split_on :: "char \<Rightarrow> string \<Rightarrow> string list" where
  "split_on sep [] = [[]]"
| "split_on sep (c # cs) =
     (if c = sep then [] # split_on sep cs
      else (case split_on sep cs of
              l # ls \<Rightarrow> (c # l) # ls
            | [] \<Rightarrow> [[c]]))"

text \<open>\<^verbatim>\<open>toLowerCase()\<close> on the letters A to Z; every other character of the model's
  strings is left as it is.\<close>

definition lower_char :: "char \<Rightarrow> char" where
  "lower_char c =
     (if 65 \<le> (of_char c :: nat) \<and> (of_char c :: nat) \<le> 90 then char_of (of_char c + (32 :: nat)) else c)"

definition toLowerCase :: "string \<Rightarrow> string" where
  "toLowerCase s = map lower_char s"

text \<open>A number inside a template literal: its decimal digits.\<close>

definition digit_char :: "nat \<Rightarrow> char" where
  "digit_char k = ''0123456789'' ! k"

fun decimal :: "nat \<Rightarrow> string" where
  "decimal n =
     (if n < 10 then [digit_char n]
      else decimal (n div 10) @ [digit_char (n mod 10)])"

declare decimal.simps [simp del]

text \<open>\<^verbatim>\<open>`catchall_test_${Date.now()}_${Math.floor(Math.random() * 1000)}`\<close>.\<close>

definition randomUser :: "nat \<Rightarrow> nat \<Rightarrow> string" where
  "randomUser now r = ''catchall_test_'' @ decimal now @ ''_'' @ decimal r"

definition in_range :: "nat \<Rightarrow> nat \<Rightarrow> nat \<Rightarrow> bool" where
  "in_range lo hi c = (lo \<le> c \<and> c < hi)"

text \<open>One \<^verbatim>\<open>await smtpProbe(host, 25, from, to)\<close> of \<^verbatim>\<open>verifyEmail\<close>, after the effects
  \<open>log\<close>.\<close>

definition probe :: "env \<Rightarrow> io list \<Rightarrow> string \<Rightarrow> string \<Rightarrow> string \<Rightarrow> probe_result option" where
  "probe e log h f t = smtpProbe h 25 f t (network e log h 25 f t)"

text \<open>The loop \<^verbatim>\<open>for (const host of hosts)\<close> of \<^verbatim>\<open>verifyEmail\<close> and the final
  \<^verbatim>\<open>return 'unknown'\<close>. The result is the classification and all effects so far; \<open>None\<close>
  is an \<^verbatim>\<open>await\<close> that never returns. \<^verbatim>\<open>result.rcpt\<close> is always an object, so
  \<^verbatim>\<open>!rcpt || !rcpt.code\<close> is the test for code 0. A code that none of the three ranges
  holds falls out of the loop body, and the loop goes on.\<close>

fun probe_hosts ::
  "env \<Rightarrow> string \<Rightarrow> string \<Rightarrow> string \<Rightarrow> io list \<Rightarrow> string list \<Rightarrow> (classification \<times> io list) option"
where
  "probe_hosts e email f domain log [] = Some (Unknown, log)"
| "probe_hosts e email f domain log (h # hs) =
     (case probe e log h f email of
        None \<Rightarrow> None
      | Some result \<Rightarrow>
          (let log1 = log @ [Smtp h 25 f email]; c = code (rcpt result) in
           if c = 0 then probe_hosts e email f domain log1 hs
           else if in_range 200 300 c then
             (let fakeEmail = randomUser (dateNow e log1) (random1000 e log1) @ ''@'' @ domain in
              case probe e log1 h f fakeEmail of
                None \<Rightarrow> None
              | Some fakeResult \<Rightarrow>
                  if in_range 200 300 (code (rcpt fakeResult))
                  then Some (Catch_all, log1 @ [Smtp h 25 f fakeEmail])
                  else Some (Valid, log1 @ [Smtp h 25 f fakeEmail]))
           else if in_range 500 600 c then Some (Invalid, log1)
           else if in_range 400 500 c then Some (Unknown, log1)
           else probe_hosts e email f domain log1 hs))"

text \<open>\<^verbatim>\<open>verifyEmail(email, from)\<close>.\<close>

definition verifyEmail :: "env \<Rightarrow> string \<Rightarrow> string \<Rightarrow> (classification \<times> io list) option" where
  "verifyEmail e email f =
     (let parts = split_on (CHR ''@'') email in
      if length parts \<noteq> 2 then Some (Invalid_format, [])
      else
        (let local_part = parts ! 0; domain = parts ! 1 in
         if toLowerCase local_part \<in> set roleBased then Some (Role_based, [])
         else
           (let (hosts, log) = getMxHosts e domain in
            if hosts = [] then Some (No_mx_record, log)
            else if domain \<in> disposableDomains then Some (Disposable, log)
            else probe_hosts e email f domain log hosts)))"


section \<open>Auxiliary definitions for the statements\<close>

text \<open>The invariant of a probe session: the timer is pending exactly as long as the
  promise is unresolved; a resolved session has run \<^verbatim>\<open>cleanup()\<close>; \<^verbatim>\<open>socket.end()\<close> was
  called once if \<^verbatim>\<open>closed\<close> is set and never otherwise; and the value resolved with
  names the session's host and carries either code 0 or a reply that the polling test
  accepted.\<close>

definition session_ok :: "session \<Rightarrow> bool" where
  "session_ok s =
     ((timer s \<longleftrightarrow> resolved s = None) \<and>
      (resolved s \<noteq> None \<longrightarrow> closed s) \<and>
      ended s = (if closed s then 1 else 0) \<and>
      (\<forall>r. resolved s = Some r \<longrightarrow>
         host r = target s \<and> (code (rcpt r) = 0 \<or> (\<exists>buf. awaited buf = Some (rcpt r)))))"

text \<open>The number that a string of digits spells, for stating what \<^const>\<open>decimal\<close> returns.\<close>

definition decimal_value :: "string \<Rightarrow> nat" where
  "decimal_value ds = foldl (\<lambda>a c. 10 * a + digit_val c) 0 ds"

text \<open>The log entries of probing the hosts \<open>hs\<close> in turn for the real recipient.\<close>

definition real_probes :: "string \<Rightarrow> string \<Rightarrow> string list \<Rightarrow> io list" where
  "real_probes f email hs = map (\<lambda>h. Smtp h 25 f email) hs"

text \<open>Example sessions and worlds, for evaluating the model. In \<open>dialogue\<close> the host
  greets, answers EHLO and MAIL FROM with 250 and RCPT TO with the given line, each
  reply arriving before the next poll. An empty event list is a host that never
  answers.\<close>

definition dialogue :: "string \<Rightarrow> event list" where
  "dialogue rcpt_line =
     [Connected, Data (''220 mx ready'' @ [CR, LF]), Poll 50,
      Write_done None 60, Data (''250 hello'' @ [CR, LF]), Poll 110,
      Write_done None 120, Data (''250 sender ok'' @ [CR, LF]), Poll 170,
      Write_done None 180, Data (rcpt_line @ [CR, LF]), Poll 230]"

text \<open>A world whose MX lookup resolves with \<open>mx\<close>, whose address lookups reject, and
  whose hosts behave as \<open>net host recipient\<close> says.\<close>

definition world :: "mx_record list \<Rightarrow> (string \<Rightarrow> string \<Rightarrow> event list) \<Rightarrow> env" where
  "world mx net =
     \<lparr>resolveMx = (\<lambda>d. Inr mx),
      resolve4 = (\<lambda>d. Inl ''ENODATA''),
      resolve6 = (\<lambda>d. Inl ''ENODATA''),
      network = (\<lambda>log h port f t. net h t),
      dateNow = (\<lambda>log. 1700000000000),
      random1000 = (\<lambda>log. 42)\<rparr>"

text \<open>The same world with a clock that advances by one millisecond with every effect and
  a random number that changes with it.\<close>

definition ticking :: "env \<Rightarrow> env" where
  "ticking e =
     e\<lparr>dateNow := (\<lambda>log. 1700000000000 + length log),
       random1000 := (\<lambda>log. (7 * length log) mod 1000)\<rparr>"

definition two_hosts :: "mx_record list" where
  "two_hosts =
     [\<lparr>exchange = ''mx2.example.org.'', priority = 20\<rparr>,
      \<lparr>exchange = ''mx1.example.org.'', priority = 10\<rparr>]"

text \<open>The reply codes that end the loop of \<^verbatim>\<open>verifyEmail\<close>: those in one of the three
  ranges its body tests.\<close>

definition conclusive :: "nat \<Rightarrow> bool" where
  "conclusive c = (in_range 200 300 c \<or> in_range 400 600 c)"

text \<open>Example hosts: the first exchanger never answers and the second accepts only the
  real recipient; every host accepts every recipient; the first exchanger answers RCPT TO
  with 354 and the second rejects; every host defers.\<close>

definition silent_then_selective :: "string \<Rightarrow> string \<Rightarrow> event list" where
  "silent_then_selective h t =
     (if h = ''mx1.example.org'' then []
      else if t = ''bob@example.org'' then dialogue ''250 ok''
      else dialogue ''550 no such user'')"

definition accept_all :: "string \<Rightarrow> string \<Rightarrow> event list" where
  "accept_all h t = dialogue ''250 ok''"

definition odd_then_reject :: "string \<Rightarrow> string \<Rightarrow> event list" where
  "odd_then_reject h t =
     (if h = ''mx1.example.org'' then dialogue ''354 go ahead''
      else dialogue ''550 no such user'')"

definition try_later :: "string \<Rightarrow> string \<Rightarrow> event list" where
  "try_later h t = dialogue ''450 try again later''"

text \<open>Further example worlds: one whose MX lookup resolves with no record although the
  domain has addresses; one whose MX lookup fails and whose address lookups resolve with
  the given lists; one in which no lookup succeeds and every connection is refused.\<close>

definition empty_mx_world :: env where
  "empty_mx_world =
     \<lparr>resolveMx = (\<lambda>d. Inr []),
      resolve4 = (\<lambda>d. Inr [''192.0.2.1'']),
      resolve6 = (\<lambda>d. Inr [''2001:db8::1'']),
      network = (\<lambda>log h port f t. []),
      dateNow = (\<lambda>log. 1700000000000),
      random1000 = (\<lambda>log. 42)\<rparr>"

definition no_mx_world :: "string list \<Rightarrow> string list \<Rightarrow> env" where
  "no_mx_world a a6 =
     \<lparr>resolveMx = (\<lambda>d. Inl ''ENODATA''),
      resolve4 = (\<lambda>d. Inr a),
      resolve6 = (\<lambda>d. Inr a6),
      network = (\<lambda>log h port f t. []),
      dateNow = (\<lambda>log. 1700000000000),
      random1000 = (\<lambda>log. 42)\<rparr>"

definition unreachable_world :: env where
  "unreachable_world =
     \<lparr>resolveMx = (\<lambda>d. Inl ''ENOTFOUND''),
      resolve4 = (\<lambda>d. Inl ''ENOTFOUND''),
      resolve6 = (\<lambda>d. Inl ''ENOTFOUND''),
      network = (\<lambda>log h port f t. [Socket_error ''connect ECONNREFUSED'']),
      dateNow = (\<lambda>log. 1700000000000),
      random1000 = (\<lambda>log. 42)\<rparr>"

section \<open>Properties of the response parser\<close>

lemma digit_val_le: "is_digit c \<Longrightarrow> digit_val c \<le> 9"
  unfolding is_digit_def digit_val_def by arith

lemma match_line_le: "match_line l = Some n \<Longrightarrow> n \<le> 999"
proof (induction l rule: match_line.induct)
  case (1 a b c s rest)
  then have d: "is_digit a" "is_digit b" "is_digit c"
    and n: "n = 100 * digit_val a + 10 * digit_val b + digit_val c"
    by (auto split: if_splits)
  from d have "digit_val a \<le> 9" "digit_val b \<le> 9" "digit_val c \<le> 9"
    by (simp_all add: digit_val_le)
  with n show ?case by arith
qed simp_all

lemma match_line_shape:
  "match_line l \<noteq> None \<longleftrightarrow>
     (\<exists>a b c s rest. l = a # b # c # s # rest \<and> is_digit a \<and> is_digit b \<and> is_digit c \<and>
        (s = CHR '' '' \<or> s = CHR ''-''))"
  by (induction l rule: match_line.induct) auto

lemma scan_back_None_iff: "scan_back ls = None \<longleftrightarrow> (\<forall>l \<in> set ls. match_line l = None)"
  by (induction ls) (auto split: option.splits)

lemma scan_back_Some: "scan_back ls = Some n \<Longrightarrow> \<exists>l \<in> set ls. match_line l = Some n"
  by (induction ls) (auto split: option.splits)

lemma parse_None_iff:
  "parseSMTPResponse text = None \<longleftrightarrow> (\<forall>l \<in> set (reply_lines text). match_line l = None)"
proof -
  have "scan_back (rev (reply_lines text)) = None \<longleftrightarrow>
        (\<forall>l \<in> set (reply_lines text). match_line l = None)"
    by (simp add: scan_back_None_iff)
  then show ?thesis
    by (cases "scan_back (rev (reply_lines text))") (simp_all add: parseSMTPResponse_def Let_def)
qed

lemma parse_code_le: "parseSMTPResponse text = Some r \<Longrightarrow> code r \<le> 999"
  by (auto simp: parseSMTPResponse_def Let_def split: option.splits
      dest!: scan_back_Some match_line_le)

lemma awaited_code: "awaited buf = Some r \<Longrightarrow> 1 \<le> code r \<and> code r \<le> 999"
  by (auto simp: awaited_def split: option.splits if_splits dest: parse_code_le)

text \<open>
  \<^bold>\<open>C4\<close>, as the spec states it: the buffer \<^verbatim>\<open>"250-line one\r\n"\<close> alone, a continuation
  line, makes the parser report the reply as incomplete. On the code it does not: the
  pattern's \<^verbatim>\<open>[ -]\<close> accepts the hyphen, and the parser returns code 250.
\<close>
theorem parser_continuation_counterexample:
  "parseSMTPResponse (''250-line one'' @ [CR, LF]) =
     Some \<lparr>code = 250, message = ''250-line one''\<rparr>"
  by code_simp

text \<open>
  \<^bold>\<open>C4\<close>, amended: given \<^verbatim>\<open>"250-line one\r\n250 line two\r\n"\<close> the parser returns code 250
  (with both lines, joined by a line feed, as the message); given only
  \<^verbatim>\<open>"250-line one\r\n"\<close> it returns code 250 as well. It returns no match exactly when no
  non-empty line of the buffer begins with three digits followed by a space or a hyphen.
\<close>
theorem parser_multiline_reply:
  "parseSMTPResponse (''250-line one'' @ [CR, LF] @ ''250 line two'' @ [CR, LF]) =
     Some \<lparr>code = 250, message = ''250-line one'' @ [LF] @ ''250 line two''\<rparr>
   \<and> parseSMTPResponse (''250-line one'' @ [CR, LF]) =
     Some \<lparr>code = 250, message = ''250-line one''\<rparr>
   \<and> (parseSMTPResponse text = None \<longleftrightarrow>
        (\<forall>l \<in> set (reply_lines text).
           \<not> (\<exists>a b c s rest. l = a # b # c # s # rest \<and> is_digit a \<and> is_digit b \<and> is_digit c \<and>
                (s = CHR '' '' \<or> s = CHR ''-''))))"
proof (intro conjI)
  show "parseSMTPResponse (''250-line one'' @ [CR, LF] @ ''250 line two'' @ [CR, LF]) =
     Some \<lparr>code = 250, message = ''250-line one'' @ [LF] @ ''250 line two''\<rparr>"
    by code_simp
  show "parseSMTPResponse (''250-line one'' @ [CR, LF]) =
     Some \<lparr>code = 250, message = ''250-line one''\<rparr>"
    by code_simp
  show "parseSMTPResponse text = None \<longleftrightarrow>
        (\<forall>l \<in> set (reply_lines text).
           \<not> (\<exists>a b c s rest. l = a # b # c # s # rest \<and> is_digit a \<and> is_digit b \<and> is_digit c \<and>
                (s = CHR '' '' \<or> s = CHR ''-'')))"
    unfolding parse_None_iff match_line_shape [symmetric] by simp
qed

text \<open>The last part at a buffer with two lines, neither of which matches.\<close>
theorem parser_multiline_reply_witness:
  "parseSMTPResponse (''25 ok'' @ [CR, LF] @ ''hello'') = None
   \<and> reply_lines (''25 ok'' @ [CR, LF] @ ''hello'') = [''25 ok'', ''hello'']
   \<and> parseSMTPResponse (''250-line one'' @ [CR, LF]) \<noteq> None"
proof -
  have l: "reply_lines (''25 ok'' @ [CR, LF] @ ''hello'') = [''25 ok'', ''hello'']"
    by code_simp
  have d: "\<not> is_digit (CHR '' '')" "\<not> is_digit (CHR ''h'')"
    by (simp_all add: is_digit_def)
  show ?thesis
    using parser_multiline_reply [of "''25 ok'' @ [CR, LF] @ ''hello''"] l d by simp
qed

section \<open>Properties of the resolver\<close>

lemma strip_root_dot_snoc: "strip_root_dot (h @ ''.'') = h"
  by (simp add: strip_root_dot_def)

lemma strip_root_dot_id: "h = [] \<or> last h \<noteq> CHR ''.'' \<Longrightarrow> strip_root_dot h = h"
  by (auto simp: strip_root_dot_def)

lemma two_hosts_resolved: "getMxHosts (world two_hosts net) d =
    ([''mx1.example.org'', ''mx2.example.org''], [Dns_mx d])"
  by (simp add: getMxHosts_def world_def two_hosts_def strip_root_dot_def)

lemma unreachable_resolved: "getMxHosts unreachable_world d = ([], [Dns_mx d, Dns_a d])"
  by (simp add: getMxHosts_def unreachable_world_def)

text \<open>
  \<^bold>\<open>C5\<close>, as the spec states it: when the MX lookup returns none, the resolver falls back
  to the address lookups and returns the domain if one resolves. On the code, an MX lookup
  that resolves with an empty list returns the empty list at once
  (\<^verbatim>\<open>if (!mx || mx.length === 0) return [];\<close>), although the IPv4 lookup would resolve.
\<close>
theorem resolver_fallback_counterexample:
  "resolveMx empty_mx_world ''example.org'' = Inr []
   \<and> resolve4 empty_mx_world ''example.org'' = Inr [''192.0.2.1'']
   \<and> getMxHosts empty_mx_world ''example.org'' = ([], [Dns_mx ''example.org''])"
  by (simp add: getMxHosts_def empty_mx_world_def)

text \<open>
  \<^bold>\<open>C5\<close>, amended: when the MX lookup resolves with one or more records, the resolver
  returns their exchange names in ascending order of priority, each without one trailing
  dot. When it resolves with no record, the result is the empty list and no address lookup
  is made. When the MX lookup fails, the resolver returns the domain alone if the IPv4
  lookup resolves with an address, or if the IPv4 lookup resolves with no address and the
  IPv6 lookup resolves with one; and the empty list if all three lookups fail.
\<close>
theorem resolver_order_and_fallback:
  "(resolveMx e d = Inr mx \<and> mx \<noteq> [] \<longrightarrow>
      (\<exists>ys. mset ys = mset mx \<and> sorted (map priority ys)
            \<and> getMxHosts e d = (map (\<lambda>m. strip_root_dot (exchange m)) ys, [Dns_mx d])))
   \<and> strip_root_dot (h @ ''.'') = h
   \<and> (h = [] \<or> last h \<noteq> CHR ''.'' \<longrightarrow> strip_root_dot h = h)
   \<and> (resolveMx e d = Inr [] \<longrightarrow> getMxHosts e d = ([], [Dns_mx d]))
   \<and> (resolveMx e d = Inl err \<and> resolve4 e d = Inr a \<and> a \<noteq> [] \<longrightarrow>
        getMxHosts e d = ([d], [Dns_mx d, Dns_a d]))
   \<and> (resolveMx e d = Inl err \<and> resolve4 e d = Inr [] \<and> resolve6 e d = Inr a6 \<and> a6 \<noteq> [] \<longrightarrow>
        getMxHosts e d = ([d], [Dns_mx d, Dns_a d, Dns_aaaa d]))
   \<and> (resolveMx e d = Inl err \<and> resolve4 e d = Inl err4 \<and> resolve6 e d = Inl err6 \<longrightarrow>
        fst (getMxHosts e d) = [])"
proof (intro conjI impI)
  assume a: "resolveMx e d = Inr mx \<and> mx \<noteq> []"
  have "mset (sort_key priority mx) = mset mx" by simp
  moreover have "sorted (map priority (sort_key priority mx))" by (rule sorted_sort_key)
  moreover have "getMxHosts e d =
      (map (\<lambda>m. strip_root_dot (exchange m)) (sort_key priority mx), [Dns_mx d])"
    using a by (simp add: getMxHosts_def)
  ultimately show "\<exists>ys. mset ys = mset mx \<and> sorted (map priority ys)
            \<and> getMxHosts e d = (map (\<lambda>m. strip_root_dot (exchange m)) ys, [Dns_mx d])"
    by blast
next
  show "strip_root_dot (h @ ''.'') = h" by (rule strip_root_dot_snoc)
next
  assume "h = [] \<or> last h \<noteq> CHR ''.''"
  then show "strip_root_dot h = h" by (rule strip_root_dot_id)
next
  assume "resolveMx e d = Inr []"
  then show "getMxHosts e d = ([], [Dns_mx d])" by (simp add: getMxHosts_def)
next
  assume "resolveMx e d = Inl err \<and> resolve4 e d = Inr a \<and> a \<noteq> []"
  then show "getMxHosts e d = ([d], [Dns_mx d, Dns_a d])" by (simp add: getMxHosts_def)
next
  assume "resolveMx e d = Inl err \<and> resolve4 e d = Inr [] \<and> resolve6 e d = Inr a6 \<and> a6 \<noteq> []"
  then show "getMxHosts e d = ([d], [Dns_mx d, Dns_a d, Dns_aaaa d])"
    by (simp add: getMxHosts_def)
next
  assume "resolveMx e d = Inl err \<and> resolve4 e d = Inl err4 \<and> resolve6 e d = Inl err6"
  then show "fst (getMxHosts e d) = []" by (simp add: getMxHosts_def)
qed

text \<open>Two exchangers given out of order, and one world for each of the other cases.\<close>
theorem resolver_order_and_fallback_witness:
  "getMxHosts (world two_hosts accept_all) ''example.org'' =
     ([''mx1.example.org'', ''mx2.example.org''], [Dns_mx ''example.org''])
   \<and> sorted (map priority (sort_key priority two_hosts))
   \<and> strip_root_dot ''mx1.example.org.'' = ''mx1.example.org''
   \<and> strip_root_dot ''mx1.example.org'' = ''mx1.example.org''
   \<and> getMxHosts empty_mx_world ''example.org'' = ([], [Dns_mx ''example.org''])
   \<and> getMxHosts (no_mx_world [''192.0.2.1''] []) ''example.org'' =
       ([''example.org''], [Dns_mx ''example.org'', Dns_a ''example.org''])
   \<and> getMxHosts (no_mx_world [] [''2001:db8::1'']) ''example.org'' =
       ([''example.org''], [Dns_mx ''example.org'', Dns_a ''example.org'', Dns_aaaa ''example.org''])
   \<and> fst (getMxHosts ((world [] accept_all) \<lparr>resolveMx := (\<lambda>d. Inl ''ENOTFOUND'')\<rparr>) ''example.org'') = []"
proof -
  have 1: "resolveMx (world two_hosts accept_all) ''example.org'' = Inr two_hosts \<and> two_hosts \<noteq> []"
    by (simp add: world_def two_hosts_def)
  have 2: "resolveMx empty_mx_world ''example.org'' = Inr []"
    by (simp add: empty_mx_world_def)
  have 3: "resolveMx (no_mx_world [''192.0.2.1''] []) ''example.org'' = Inl ''ENODATA''
      \<and> resolve4 (no_mx_world [''192.0.2.1''] []) ''example.org'' = Inr [''192.0.2.1'']
      \<and> [''192.0.2.1''] \<noteq> []"
    by (simp add: no_mx_world_def)
  have 4: "resolveMx (no_mx_world [] [''2001:db8::1'']) ''example.org'' = Inl ''ENODATA''
      \<and> resolve4 (no_mx_world [] [''2001:db8::1'']) ''example.org'' = Inr []
      \<and> resolve6 (no_mx_world [] [''2001:db8::1'']) ''example.org'' = Inr [''2001:db8::1'']
      \<and> [''2001:db8::1''] \<noteq> []"
    by (simp add: no_mx_world_def)
  let ?F = "(world [] accept_all) \<lparr>resolveMx := (\<lambda>d. Inl ''ENOTFOUND'')\<rparr>"
  have 5: "resolveMx ?F ''example.org'' = Inl ''ENOTFOUND''
      \<and> resolve4 ?F ''example.org'' = Inl ''ENODATA''
      \<and> resolve6 ?F ''example.org'' = Inl ''ENODATA''"
    by (simp add: world_def)
  have 6: "''mx1.example.org'' = [] \<or> last ''mx1.example.org'' \<noteq> CHR ''.''" by simp
  note t = resolver_order_and_fallback
  have a: "getMxHosts (world two_hosts accept_all) ''example.org'' =
     ([''mx1.example.org'', ''mx2.example.org''], [Dns_mx ''example.org''])"
    by (simp add: getMxHosts_def world_def two_hosts_def strip_root_dot_def)
  have b: "sorted (map priority (sort_key priority two_hosts))"
    by (rule sorted_sort_key)
  have c: "strip_root_dot ''mx1.example.org.'' = ''mx1.example.org''"
    using t [where h = "''mx1.example.org''", THEN conjunct2, THEN conjunct1] by simp
  have c': "strip_root_dot ''mx1.example.org'' = ''mx1.example.org''"
    using t [where h = "''mx1.example.org''", THEN conjunct2, THEN conjunct2, THEN conjunct1] 6
    by (rule mp)
  have d: "getMxHosts empty_mx_world ''example.org'' = ([], [Dns_mx ''example.org''])"
    using t [where e = empty_mx_world and d = "''example.org''", THEN conjunct2, THEN conjunct2,
        THEN conjunct2, THEN conjunct1] 2
    by (rule mp)
  have e: "getMxHosts (no_mx_world [''192.0.2.1''] []) ''example.org'' =
       ([''example.org''], [Dns_mx ''example.org'', Dns_a ''example.org''])"
    using t [where e = "no_mx_world [''192.0.2.1''] []" and d = "''example.org''"
        and err = "''ENODATA''" and a = "[''192.0.2.1'']", THEN conjunct2, THEN conjunct2,
        THEN conjunct2, THEN conjunct2, THEN conjunct1] 3
    by (rule mp)
  have f: "getMxHosts (no_mx_world [] [''2001:db8::1'']) ''example.org'' =
       ([''example.org''], [Dns_mx ''example.org'', Dns_a ''example.org'', Dns_aaaa ''example.org''])"
    using t [where e = "no_mx_world [] [''2001:db8::1'']" and d = "''example.org''"
        and err = "''ENODATA''" and ?a6.0 = "[''2001:db8::1'']", THEN conjunct2, THEN conjunct2,
        THEN conjunct2, THEN conjunct2, THEN conjunct2, THEN conjunct1] 4
    by (rule mp)
  have g: "fst (getMxHosts ?F ''example.org'') = []"
    using t [where e = ?F and d = "''example.org''" and err = "''ENOTFOUND''"
        and ?err4.0 = "''ENODATA''" and ?err6.0 = "''ENODATA''", THEN conjunct2, THEN conjunct2,
        THEN conjunct2, THEN conjunct2, THEN conjunct2, THEN conjunct2] 5
    by (rule mp)
  from a b c c' d e f g show ?thesis by (intro conjI)
qed

section \<open>Properties of the probe session\<close>

subsection \<open>The invariant\<close>

lemma init_ok: "session_ok (init h f t)"
  by (simp add: session_ok_def init_def)

lemma settle_ok:
  "session_ok s \<Longrightarrow> code r = 0 \<or> (\<exists>buf. awaited buf = Some r) \<Longrightarrow>
   session_ok (resolve r (cleanup (clearTimeout s)))"
  by (auto simp: session_ok_def resolve_def cleanup_def clearTimeout_def)

lemma sendCmd_ok: "session_ok s \<Longrightarrow> session_ok (sendCmd c s)"
  by (simp add: session_ok_def sendCmd_def)

lemma stage_upd_ok: "session_ok s \<Longrightarrow> session_ok (s\<lparr>stage := g\<rparr>)"
  by (simp add: session_ok_def)

lemma finish_ok:
  assumes "session_ok s" and "code r = 0 \<or> (\<exists>buf. awaited buf = Some r)"
  shows "session_ok (finish r s)"
proof -
  let ?s = "s\<lparr>written := written s @ [''RSET'' @ [CR, LF], ''QUIT'' @ [CR, LF]], stage := Finished\<rparr>"
  have "session_ok ?s" using assms(1) by (simp add: session_ok_def)
  then have "session_ok (resolve r (cleanup (clearTimeout ?s)))" using assms(2) by (rule settle_ok)
  then show ?thesis by (simp add: finish_def)
qed

lemma protocol_error_ok:
  assumes "session_ok s"
  shows "session_ok (protocol_error err s)"
proof -
  have "session_ok (s\<lparr>stage := Finished\<rparr>)" using assms by (rule stage_upd_ok)
  then have "session_ok (resolve (sentinel (''protocol_error: '' @ err))
      (cleanup (clearTimeout (s\<lparr>stage := Finished\<rparr>))))"
    by (rule settle_ok) (simp add: sentinel_def)
  then show ?thesis by (simp add: protocol_error_def)
qed

lemma command_done_ok:
  "session_ok s \<Longrightarrow> (\<forall>p. res = Inr p \<longrightarrow> (\<exists>buf. awaited buf = Some p)) \<Longrightarrow>
   session_ok (command_done c res s)"
  by (cases "(c, res, s)" rule: command_done.cases)
     (auto simp: sendCmd_ok finish_ok protocol_error_ok)

lemma waitResp_ok: "session_ok s \<Longrightarrow> session_ok (waitResp c start now s)"
  by (auto simp: waitResp_def stage_upd_ok split: option.splits intro!: command_done_ok)

lemma waitGreeting_ok: "session_ok s \<Longrightarrow> session_ok (waitGreeting s)"
  by (auto simp: waitGreeting_def sendCmd_ok stage_upd_ok split: option.splits)

lemma step_ok:
  assumes "session_ok s"
  shows "session_ok (step ev s)"
proof (cases ev)
  case Connected
  with assms show ?thesis by (simp add: waitGreeting_ok)
next
  case (Data chunk)
  with assms show ?thesis by (simp add: session_ok_def)
next
  case (Socket_error msg)
  with assms show ?thesis by (simp add: settle_ok sentinel_def)
next
  case Timer_fired
  with assms show ?thesis
    by (auto simp: session_ok_def resolve_def cleanup_def sentinel_def)
next
  case (Write_done err now)
  with assms show ?thesis
    by (auto simp: waitResp_ok split: stage.splits option.splits intro!: command_done_ok)
next
  case (Poll now)
  with assms show ?thesis
    by (auto simp: waitResp_ok waitGreeting_ok split: stage.splits)
next
  case Peer_closed
  with assms show ?thesis by simp
qed

lemma run_ok: "session_ok s \<Longrightarrow> session_ok (run s evs)"
  by (induction evs arbitrary: s) (simp_all add: step_ok)

lemma reachable_ok: "session_ok (run (init h f t) evs)"
  by (simp add: run_ok init_ok)

lemma target_kept [simp]:
  "target (resolve r s) = target s" "target (cleanup s) = target s"
  "target (clearTimeout s) = target s" "target (sendCmd c s) = target s"
  by (simp_all add: resolve_def cleanup_def clearTimeout_def sendCmd_def)

lemma target_command_done [simp]: "target (command_done c res s) = target s"
  by (cases "(c, res, s)" rule: command_done.cases) (simp_all add: finish_def protocol_error_def)

lemma target_step: "target (step ev s) = target s"
  by (cases ev) (auto simp: waitGreeting_def waitResp_def split: option.splits stage.splits)

lemma target_run: "target (run s evs) = target s"
  by (induction evs arbitrary: s) (simp_all add: target_step)

lemma target_reachable: "target (run (init h f t) evs) = h"
  by (simp add: target_run init_def)

lemma timer_fired_resolved: "session_ok s \<Longrightarrow> \<exists>r. resolved (step Timer_fired s) = Some r"
  by (auto simp: session_ok_def resolve_def cleanup_def)

lemma smtpProbe_settles: "\<exists>r. smtpProbe h port f t evs = Some r"
  unfolding smtpProbe_def by (rule timer_fired_resolved) (rule reachable_ok)

lemma smtpProbe_result:
  assumes "smtpProbe h port f t evs = Some r"
  shows "host r = h \<and> (code (rcpt r) = 0 \<or> (\<exists>buf. awaited buf = Some (rcpt r)))"
proof -
  have "session_ok (step Timer_fired (run (init h f t) evs))"
    by (rule step_ok) (rule reachable_ok)
  moreover have "target (step Timer_fired (run (init h f t) evs)) = h"
    by (simp only: target_step target_reachable)
  ultimately show ?thesis using assms by (simp add: session_ok_def smtpProbe_def)
qed

lemma smtpProbe_code_le: "smtpProbe h port f t evs = Some r \<Longrightarrow> code (rcpt r) \<le> 999"
  using smtpProbe_result [of h port f t evs r] awaited_code [of _ "rcpt r"] by auto

lemma unresolved_timer: "session_ok s \<Longrightarrow> resolved s = None \<Longrightarrow> timer s"
  by (simp add: session_ok_def)

lemma resolve_fresh:
  "resolved s = None \<Longrightarrow> resolved (resolve r (cleanup (clearTimeout s))) = Some \<lparr>host = target s, rcpt = r\<rparr>"
  by (simp add: resolve_def cleanup_def clearTimeout_def)

lemma finish_fresh: "resolved s = None \<Longrightarrow> resolved (finish r s) = Some \<lparr>host = target s, rcpt = r\<rparr>"
  by (simp add: finish_def resolve_def cleanup_def clearTimeout_def)

lemma protocol_error_fresh:
  "resolved s = None \<Longrightarrow>
   resolved (protocol_error err s) = Some \<lparr>host = target s, rcpt = sentinel (''protocol_error: '' @ err)\<rparr>"
  by (simp add: protocol_error_def resolve_def cleanup_def clearTimeout_def)

lemma timer_fresh:
  "resolved s = None \<Longrightarrow> timer s \<Longrightarrow>
   resolved (step Timer_fired s) = Some \<lparr>host = target s, rcpt = sentinel ''timeout''\<rparr>
   \<and> closed (step Timer_fired s)"
  by (simp add: resolve_def cleanup_def)

subsection \<open>Example sessions\<close>

lemma probe_silent: "smtpProbe h 25 f t [] = Some \<lparr>host = h, rcpt = \<lparr>code = 0, message = ''timeout''\<rparr>\<rparr>"
  by code_simp

lemma probe_250: "smtpProbe h 25 f t (dialogue ''250 ok'') =
    Some \<lparr>host = h, rcpt = \<lparr>code = 250, message = ''250 ok''\<rparr>\<rparr>"
  by code_simp

lemma probe_550: "smtpProbe h 25 f t (dialogue ''550 no such user'') =
    Some \<lparr>host = h, rcpt = \<lparr>code = 550, message = ''550 no such user''\<rparr>\<rparr>"
  by code_simp

lemma probe_354: "smtpProbe h 25 f t (dialogue ''354 go ahead'') =
    Some \<lparr>host = h, rcpt = \<lparr>code = 354, message = ''354 go ahead''\<rparr>\<rparr>"
  by code_simp

lemma probe_450: "smtpProbe h 25 f t (dialogue ''450 try again later'') =
    Some \<lparr>host = h, rcpt = \<lparr>code = 450, message = ''450 try again later''\<rparr>\<rparr>"
  by code_simp

lemma parse_999: "parseSMTPResponse ''999 x'' = Some \<lparr>code = 999, message = ''999 x''\<rparr>" by code_simp

lemma awaited_999: "awaited ''999 x'' = Some \<lparr>code = 999, message = ''999 x''\<rparr>" by code_simp

lemma awaited_000: "awaited ''000 x'' = None" by code_simp

lemma session_250: "smtpProbe ''mx'' 25 ''a@b'' ''c@d'' (dialogue ''250 ok'') =
       Some \<lparr>host = ''mx'', rcpt = \<lparr>code = 250, message = ''250 ok''\<rparr>\<rparr>" by code_simp

lemma session_000: "smtpProbe ''mx'' 25 ''a@b'' ''c@d'' (dialogue ''000 x'') =
       Some \<lparr>host = ''mx'', rcpt = \<lparr>code = 0, message = ''timeout''\<rparr>\<rparr>" by code_simp

lemma stalled_unresolved: "resolved (run (init ''mx'' ''a@b'' ''c@d'') [Connected, Data ''220-mx''] ) = None" by code_simp

lemma dialogue_resolved: "resolved (run (init ''mx'' ''a@b'' ''c@d'') (dialogue ''250 ok'')) =
   Some \<lparr>host = ''mx'', rcpt = \<lparr>code = 250, message = ''250 ok''\<rparr>\<rparr>" by code_simp

lemma after_connect: "resolved (run (init ''mx'' ''a@b'' ''c@d'') (take 1 (dialogue ''250 ok''))) = None"
  by code_simp

lemma before_mail_write: "resolved (run (init ''mx'' ''a@b'' ''c@d'') (take 6 (dialogue ''250 ok''))) = None
  \<and> stage (run (init ''mx'' ''a@b'' ''c@d'') (take 6 (dialogue ''250 ok''))) = Wait_write MAIL_FROM"
  by code_simp

lemma awaiting_mail_reply: "resolved (run (init ''mx'' ''a@b'' ''c@d'') (take 7 (dialogue ''250 ok''))) = None
  \<and> stage (run (init ''mx'' ''a@b'' ''c@d'') (take 7 (dialogue ''250 ok''))) = Wait_resp MAIL_FROM 120
  \<and> awaited (buffer (run (init ''mx'' ''a@b'' ''c@d'') (take 7 (dialogue ''250 ok'')))) = None"
  by code_simp

lemma before_rcpt_write: "resolved (run (init ''mx'' ''a@b'' ''c@d'') (take 9 (dialogue ''250 ok''))) = None
  \<and> stage (run (init ''mx'' ''a@b'' ''c@d'') (take 9 (dialogue ''250 ok''))) = Wait_write RCPT_TO"
  by code_simp

lemma awaiting_rcpt_reply: "resolved (run (init ''mx'' ''a@b'' ''c@d'') (take 10 (dialogue ''250 ok''))) = None
  \<and> stage (run (init ''mx'' ''a@b'' ''c@d'') (take 10 (dialogue ''250 ok''))) = Wait_resp RCPT_TO 180
  \<and> awaited (buffer (run (init ''mx'' ''a@b'' ''c@d'') (take 10 (dialogue ''250 ok'')))) = None"
  by code_simp

lemma command_wait_exceeded: "(9000 :: int) - 120 > TIMEOUT \<and> (9000 :: int) - 180 > TIMEOUT"
  by (simp add: TIMEOUT_def)

subsection \<open>Reply codes\<close>

text \<open>
  \<^bold>\<open>C9\<close>, as the spec states it: every reply code lies in [0,599], and 0 occurs only as the
  sentinel. The parser takes any three digits: \<^verbatim>\<open>"999 x"\<close> parses to code 999, which a
  session passes on as its reply, and \<^verbatim>\<open>"000 x"\<close> parses to code 0.
\<close>
theorem reply_code_counterexample:
  "parseSMTPResponse ''999 x'' = Some \<lparr>code = 999, message = ''999 x''\<rparr>
   \<and> parseSMTPResponse ''000 x'' = Some \<lparr>code = 0, message = ''000 x''\<rparr>
   \<and> smtpProbe ''mx'' 25 ''a@b'' ''c@d'' (dialogue ''999 x'') =
       Some \<lparr>host = ''mx'', rcpt = \<lparr>code = 999, message = ''999 x''\<rparr>\<rparr>"
  by code_simp

text \<open>
  \<^bold>\<open>C9\<close>, amended: every reply code is a number in [0,999]. The parser returns the number
  its line's three digits spell. A session accepts a parsed reply only when its code is
  not 0, so a reply it accepts has a code in [1,999]; the reply a session resolves with
  is either such an accepted reply or has code 0.
\<close>
theorem reply_code_range:
  "(parseSMTPResponse text = Some r \<longrightarrow> code r \<le> 999)
   \<and> (awaited buf = Some r' \<longrightarrow> 1 \<le> code r' \<and> code r' \<le> 999)
   \<and> (smtpProbe h port f t evs = Some pr \<longrightarrow>
        code (rcpt pr) \<le> 999 \<and> (code (rcpt pr) = 0 \<or> (\<exists>b. awaited b = Some (rcpt pr))))"
proof (intro conjI impI)
  assume "parseSMTPResponse text = Some r"
  then show "code r \<le> 999" by (rule parse_code_le)
next
  assume a: "awaited buf = Some r'"
  from awaited_code [OF a] show "1 \<le> code r'" by simp
  from awaited_code [OF a] show "code r' \<le> 999" by simp
next
  assume p: "smtpProbe h port f t evs = Some pr"
  then show "code (rcpt pr) \<le> 999" by (rule smtpProbe_code_le)
  from smtpProbe_result [OF p]
  show "code (rcpt pr) = 0 \<or> (\<exists>b. awaited b = Some (rcpt pr))" by simp
qed

text \<open>The three parts at the line \<^verbatim>\<open>"999 x"\<close> and at a session answered with 250.\<close>
theorem reply_code_range_witness:
  "parseSMTPResponse ''999 x'' = Some \<lparr>code = 999, message = ''999 x''\<rparr>
   \<and> awaited ''999 x'' = Some \<lparr>code = 999, message = ''999 x''\<rparr>
   \<and> smtpProbe ''mx'' 25 ''a@b'' ''c@d'' (dialogue ''250 ok'') =
       Some \<lparr>host = ''mx'', rcpt = \<lparr>code = 250, message = ''250 ok''\<rparr>\<rparr>
   \<and> code \<lparr>code = 999, message = ''999 x''\<rparr> \<le> 999
   \<and> 1 \<le> code \<lparr>code = 999, message = ''999 x''\<rparr>
   \<and> code (rcpt \<lparr>host = ''mx'', rcpt = \<lparr>code = 250, message = ''250 ok''\<rparr>\<rparr>) \<le> 999"
  using reply_code_range [of "''999 x''" "\<lparr>code = 999, message = ''999 x''\<rparr>" "''999 x''"
      "\<lparr>code = 999, message = ''999 x''\<rparr>" "''mx''" 25 "''a@b''" "''c@d''" "dialogue ''250 ok''"
      "\<lparr>host = ''mx'', rcpt = \<lparr>code = 250, message = ''250 ok''\<rparr>\<rparr>"]
    parse_999 awaited_999 session_250
  by simp

subsection \<open>Timeout and release\<close>

lemma ended_positive: "session_ok s \<Longrightarrow> resolved s \<noteq> None \<Longrightarrow> 0 < ended s"
  by (simp add: session_ok_def)

lemma refused_state:
  "resolved (run (init ''mx'' ''a@b'' ''c@d'') [Socket_error ''connect ECONNREFUSED'']) =
     Some \<lparr>host = ''mx'', rcpt = \<lparr>code = 0, message = ''socket_error: connect ECONNREFUSED''\<rparr>\<rparr>"
  by code_simp

lemma peer_closed_state:
  "resolved (run (init ''mx'' ''a@b'' ''c@d'') (dialogue ''250 ok'' @ [Peer_closed])) =
     Some \<lparr>host = ''mx'', rcpt = \<lparr>code = 250, message = ''250 ok''\<rparr>\<rparr>"
  by code_simp

lemma tears_down_examples:
  "list_ex tears_down [Socket_error ''connect ECONNREFUSED'']"
  "list_ex tears_down (dialogue ''250 ok'' @ [Peer_closed])"
  "\<not> list_ex tears_down (dialogue ''250 ok'')"
  by (simp_all add: dialogue_def)

text \<open>
  \<^bold>\<open>C8\<close>, as the spec states it: on every path the opened connection is released before
  the session resolves. On the code, \<^verbatim>\<open>cleanup()\<close> calls \<^verbatim>\<open>socket.end()\<close> and nothing else,
  which half-closes the socket. A host that connects and then stalls in its greeting
  leaves the session resolved by its timer with the connection half-closed, not released;
  and so does a host that answers every command, when the session resolves with its reply.
\<close>
theorem probe_release_counterexample:
  "smtpProbe ''mx'' 25 ''a@b'' ''c@d'' [Connected, Data ''220-mx''] =
     Some \<lparr>host = ''mx'', rcpt = \<lparr>code = 0, message = ''timeout''\<rparr>\<rparr>
   \<and> resolved (run (init ''mx'' ''a@b'' ''c@d'') [Connected, Data ''220-mx'', Timer_fired]) =
     Some \<lparr>host = ''mx'', rcpt = \<lparr>code = 0, message = ''timeout''\<rparr>\<rparr>
   \<and> socket_state ''mx'' ''a@b'' ''c@d'' [Connected, Data ''220-mx'', Timer_fired] = Half_closed
   \<and> resolved (run (init ''mx'' ''a@b'' ''c@d'') (dialogue ''250 ok'')) =
     Some \<lparr>host = ''mx'', rcpt = \<lparr>code = 250, message = ''250 ok''\<rparr>\<rparr>
   \<and> socket_state ''mx'' ''a@b'' ''c@d'' (dialogue ''250 ok'') = Half_closed"
  by code_simp

text \<open>
  \<^bold>\<open>C8\<close>, amended: take a probe session after any events whatever, so at any stage. As
  long as it is unresolved its timer is pending, and when the timer fires the session
  resolves with \<^verbatim>\<open>{ code: 0, message: 'timeout' }\<close> and \<^verbatim>\<open>cleanup()\<close> has run; the timer is
  never pending once the session is resolved. On every path, a resolved session has run
  \<^verbatim>\<open>cleanup()\<close>: \<^verbatim>\<open>closed\<close> is set and \<^verbatim>\<open>socket.end()\<close> was called exactly once (and never
  twice), so the connection is no longer open: it is half-closed, and it is released
  exactly when the socket has failed or the peer has closed its side. With the timer due
  after the events, the promise always settles.
\<close>
theorem probe_timeout_and_cleanup:
  "(resolved (run (init h f t) evs) = None \<longrightarrow>
      timer (run (init h f t) evs)
      \<and> resolved (step Timer_fired (run (init h f t) evs)) =
          Some \<lparr>host = h, rcpt = \<lparr>code = 0, message = ''timeout''\<rparr>\<rparr>
      \<and> closed (step Timer_fired (run (init h f t) evs)))
   \<and> (timer (run (init h f t) evs) \<longrightarrow> resolved (run (init h f t) evs) = None)
   \<and> (resolved (run (init h f t) evs) \<noteq> None \<longrightarrow>
        closed (run (init h f t) evs) \<and> ended (run (init h f t) evs) = 1
        \<and> socket_state h f t evs \<noteq> Open
        \<and> (socket_state h f t evs = Released \<longleftrightarrow> list_ex tears_down evs))
   \<and> ended (run (init h f t) evs) \<le> 1
   \<and> (\<exists>r. smtpProbe h port f t evs = Some r)"
proof -
  let ?s = "run (init h f t) evs"
  have ok: "session_ok ?s" by (rule reachable_ok)
  have tg: "target ?s = h" by (rule target_reachable)
  have 1: "resolved ?s = None \<longrightarrow> timer ?s
      \<and> resolved (step Timer_fired ?s) = Some \<lparr>host = h, rcpt = \<lparr>code = 0, message = ''timeout''\<rparr>\<rparr>
      \<and> closed (step Timer_fired ?s)"
  proof
    assume n: "resolved ?s = None"
    with ok have tm: "timer ?s" by (rule unresolved_timer)
    from timer_fresh [OF n tm] tg tm
    show "timer ?s
      \<and> resolved (step Timer_fired ?s) = Some \<lparr>host = h, rcpt = \<lparr>code = 0, message = ''timeout''\<rparr>\<rparr>
      \<and> closed (step Timer_fired ?s)"
      by (simp add: sentinel_def)
  qed
  have 2: "timer ?s \<longrightarrow> resolved ?s = None" using ok by (simp add: session_ok_def)
  have 3: "resolved ?s \<noteq> None \<longrightarrow> closed ?s \<and> ended ?s = 1
        \<and> socket_state h f t evs \<noteq> Open
        \<and> (socket_state h f t evs = Released \<longleftrightarrow> list_ex tears_down evs)"
  proof
    assume r: "resolved ?s \<noteq> None"
    with ok have c: "closed ?s" "ended ?s = 1" by (simp_all add: session_ok_def)
    from ok r have p: "0 < ended ?s" by (rule ended_positive)
    from p have o: "socket_state h f t evs \<noteq> Open" by (simp add: socket_state_def)
    from p have q: "socket_state h f t evs = Released \<longleftrightarrow> list_ex tears_down evs"
      by (simp add: socket_state_def)
    from c o q show "closed ?s \<and> ended ?s = 1
        \<and> socket_state h f t evs \<noteq> Open
        \<and> (socket_state h f t evs = Released \<longleftrightarrow> list_ex tears_down evs)"
      by (intro conjI)
  qed
  have 4: "ended ?s \<le> 1" using ok by (simp add: session_ok_def)
  have 5: "\<exists>r. smtpProbe h port f t evs = Some r" by (rule smtpProbe_settles)
  from 1 2 3 4 5 show ?thesis by (intro conjI)
qed

text \<open>A host that stalls in its greeting; a session that runs to a 250 reply, without and
  with the peer closing afterwards; and a refused connection.\<close>
theorem probe_timeout_and_cleanup_witness:
  "resolved (run (init ''mx'' ''a@b'' ''c@d'') [Connected, Data ''220-mx'']) = None
   \<and> timer (run (init ''mx'' ''a@b'' ''c@d'') [Connected, Data ''220-mx''])
   \<and> resolved (step Timer_fired (run (init ''mx'' ''a@b'' ''c@d'') [Connected, Data ''220-mx''])) =
        Some \<lparr>host = ''mx'', rcpt = \<lparr>code = 0, message = ''timeout''\<rparr>\<rparr>
   \<and> closed (step Timer_fired (run (init ''mx'' ''a@b'' ''c@d'') [Connected, Data ''220-mx'']))
   \<and> resolved (run (init ''mx'' ''a@b'' ''c@d'') (dialogue ''250 ok'')) =
        Some \<lparr>host = ''mx'', rcpt = \<lparr>code = 250, message = ''250 ok''\<rparr>\<rparr>
   \<and> closed (run (init ''mx'' ''a@b'' ''c@d'') (dialogue ''250 ok''))
   \<and> ended (run (init ''mx'' ''a@b'' ''c@d'') (dialogue ''250 ok'')) = 1
   \<and> socket_state ''mx'' ''a@b'' ''c@d'' (dialogue ''250 ok'') \<noteq> Open
   \<and> socket_state ''mx'' ''a@b'' ''c@d'' (dialogue ''250 ok'') \<noteq> Released
   \<and> socket_state ''mx'' ''a@b'' ''c@d'' (dialogue ''250 ok'' @ [Peer_closed]) = Released
   \<and> socket_state ''mx'' ''a@b'' ''c@d'' [Socket_error ''connect ECONNREFUSED''] = Released"
  using probe_timeout_and_cleanup [of "''mx''" "''a@b''" "''c@d''" "[Connected, Data ''220-mx'']" 25]
    probe_timeout_and_cleanup [of "''mx''" "''a@b''" "''c@d''" "dialogue ''250 ok''" 25]
    probe_timeout_and_cleanup [of "''mx''" "''a@b''" "''c@d''" "dialogue ''250 ok'' @ [Peer_closed]" 25]
    probe_timeout_and_cleanup [of "''mx''" "''a@b''" "''c@d''" "[Socket_error ''connect ECONNREFUSED'']" 25]
    stalled_unresolved dialogue_resolved refused_state peer_closed_state tears_down_examples
  by (simp del: run.simps step.simps)

section \<open>Properties of the verification engine\<close>

subsection \<open>Totality\<close>

lemma probe_total: "\<exists>r. probe e log h f t = Some r"
  unfolding probe_def by (rule smtpProbe_settles)

lemma probe_hosts_total: "\<exists>c l. probe_hosts e email f d log hs = Some (c, l)"
proof (induction hs arbitrary: log)
  case Nil
  show ?case by simp
next
  case (Cons h hs)
  obtain r where r: "probe e log h f email = Some r" using probe_total by blast
  let ?log1 = "log @ [Smtp h 25 f email]"
  let ?fake = "randomUser (dateNow e ?log1) (random1000 e ?log1) @ ''@'' @ d"
  obtain r2 where r2: "probe e ?log1 h f ?fake = Some r2" using probe_total by blast
  from Cons.IH [of ?log1] obtain c l where
    rest: "probe_hosts e email f d ?log1 hs = Some (c, l)" by blast
  show ?case using r r2 rest by (simp add: Let_def)
qed

lemma verifyEmail_total: "\<exists>c l. verifyEmail e email f = Some (c, l)"
proof -
  obtain hosts log where g: "getMxHosts e (split_on (CHR ''@'') email ! 1) = (hosts, log)"
    by (cases "getMxHosts e (split_on (CHR ''@'') email ! 1)")
  from probe_hosts_total obtain c l where
    "probe_hosts e email f (split_on (CHR ''@'') email ! 1) log hosts = Some (c, l)" by blast
  with g show ?thesis by (simp add: verifyEmail_def Let_def)
qed

lemma label_closed:
  "label c \<in> {''invalid_format'', ''role_based'', ''no_mx_record'', ''disposable'',
               ''valid'', ''catch_all'', ''invalid'', ''unknown''}"
  by (cases c) simp_all

text \<open>
  \<^bold>\<open>C6\<close>: for every address, sender and world (whatever the DNS lookups and the sockets
  do), \<^verbatim>\<open>verifyEmail\<close> returns, and returns one of the eight classification strings.
  A probe session always settles, and it converts each failure into a reply with code 0:
  a socket error and the session's timer at any stage where it is unresolved, a failed
  write and an exceeded reply wait of MAIL FROM (as \<^verbatim>\<open>protocol_error\<close>), and the same
  two failures of RCPT TO.
\<close>
theorem no_exception_escapes:
  "(\<exists>c log. verifyEmail e email sender_addr = Some (c, log) \<and>
       label c \<in> {''invalid_format'', ''role_based'', ''no_mx_record'', ''disposable'',
               ''valid'', ''catch_all'', ''invalid'', ''unknown''})
   \<and> (\<exists>r. smtpProbe h port f t evs = Some r)
   \<and> (resolved (run (init h f t) evs) = None \<longrightarrow>
        resolved (step (Socket_error msg) (run (init h f t) evs)) =
          Some \<lparr>host = h, rcpt = \<lparr>code = 0, message = ''socket_error: '' @ msg\<rparr>\<rparr>
        \<and> resolved (step Timer_fired (run (init h f t) evs)) =
          Some \<lparr>host = h, rcpt = \<lparr>code = 0, message = ''timeout''\<rparr>\<rparr>
        \<and> (stage (run (init h f t) evs) = Wait_write MAIL_FROM \<longrightarrow>
             resolved (step (Write_done (Some msg) now) (run (init h f t) evs)) =
               Some \<lparr>host = h, rcpt = \<lparr>code = 0, message = ''protocol_error: '' @ msg\<rparr>\<rparr>)
        \<and> (stage (run (init h f t) evs) = Wait_write RCPT_TO \<longrightarrow>
             resolved (step (Write_done (Some msg) now) (run (init h f t) evs)) =
               Some \<lparr>host = h, rcpt = \<lparr>code = 0, message = msg\<rparr>\<rparr>)
        \<and> (stage (run (init h f t) evs) = Wait_resp MAIL_FROM start
              \<and> awaited (buffer (run (init h f t) evs)) = None \<and> now - start > TIMEOUT \<longrightarrow>
             resolved (step (Poll now) (run (init h f t) evs)) =
               Some \<lparr>host = h, rcpt = \<lparr>code = 0, message = ''protocol_error: smtp command timeout''\<rparr>\<rparr>)
        \<and> (stage (run (init h f t) evs) = Wait_resp RCPT_TO start
              \<and> awaited (buffer (run (init h f t) evs)) = None \<and> now - start > TIMEOUT \<longrightarrow>
             resolved (step (Poll now) (run (init h f t) evs)) =
               Some \<lparr>host = h, rcpt = \<lparr>code = 0, message = ''smtp command timeout''\<rparr>\<rparr>))"
proof -
  let ?s = "run (init h f t) evs"
  have ok: "session_ok ?s" by (rule reachable_ok)
  have tg: "target ?s = h" by (rule target_reachable)
  obtain c log where v: "verifyEmail e email sender_addr = Some (c, log)"
    using verifyEmail_total by blast
  have A: "\<exists>c log. verifyEmail e email sender_addr = Some (c, log) \<and>
       label c \<in> {''invalid_format'', ''role_based'', ''no_mx_record'', ''disposable'',
               ''valid'', ''catch_all'', ''invalid'', ''unknown''}"
    using v label_closed by blast
  have B: "\<exists>r. smtpProbe h port f t evs = Some r" by (rule smtpProbe_settles)
  have C: "resolved ?s = None \<longrightarrow>
        resolved (step (Socket_error msg) ?s) =
          Some \<lparr>host = h, rcpt = \<lparr>code = 0, message = ''socket_error: '' @ msg\<rparr>\<rparr>
        \<and> resolved (step Timer_fired ?s) =
          Some \<lparr>host = h, rcpt = \<lparr>code = 0, message = ''timeout''\<rparr>\<rparr>
        \<and> (stage ?s = Wait_write MAIL_FROM \<longrightarrow>
             resolved (step (Write_done (Some msg) now) ?s) =
               Some \<lparr>host = h, rcpt = \<lparr>code = 0, message = ''protocol_error: '' @ msg\<rparr>\<rparr>)
        \<and> (stage ?s = Wait_write RCPT_TO \<longrightarrow>
             resolved (step (Write_done (Some msg) now) ?s) =
               Some \<lparr>host = h, rcpt = \<lparr>code = 0, message = msg\<rparr>\<rparr>)
        \<and> (stage ?s = Wait_resp MAIL_FROM start
              \<and> awaited (buffer ?s) = None \<and> now - start > TIMEOUT \<longrightarrow>
             resolved (step (Poll now) ?s) =
               Some \<lparr>host = h, rcpt = \<lparr>code = 0, message = ''protocol_error: smtp command timeout''\<rparr>\<rparr>)
        \<and> (stage ?s = Wait_resp RCPT_TO start
              \<and> awaited (buffer ?s) = None \<and> now - start > TIMEOUT \<longrightarrow>
             resolved (step (Poll now) ?s) =
               Some \<lparr>host = h, rcpt = \<lparr>code = 0, message = ''smtp command timeout''\<rparr>\<rparr>)"
  proof
    assume n: "resolved ?s = None"
    with ok have tm: "timer ?s" by (rule unresolved_timer)
    have s1: "resolved (step (Socket_error msg) ?s) =
          Some \<lparr>host = h, rcpt = \<lparr>code = 0, message = ''socket_error: '' @ msg\<rparr>\<rparr>"
      using resolve_fresh [OF n] tg by (simp add: sentinel_def)
    have s2: "resolved (step Timer_fired ?s) =
          Some \<lparr>host = h, rcpt = \<lparr>code = 0, message = ''timeout''\<rparr>\<rparr>"
      using timer_fresh [OF n tm] tg by (simp add: sentinel_def)
    have s3: "stage ?s = Wait_write MAIL_FROM \<longrightarrow>
             resolved (step (Write_done (Some msg) now) ?s) =
               Some \<lparr>host = h, rcpt = \<lparr>code = 0, message = ''protocol_error: '' @ msg\<rparr>\<rparr>"
      using protocol_error_fresh [OF n] tg by (simp add: sentinel_def)
    have s4: "stage ?s = Wait_write RCPT_TO \<longrightarrow>
             resolved (step (Write_done (Some msg) now) ?s) =
               Some \<lparr>host = h, rcpt = \<lparr>code = 0, message = msg\<rparr>\<rparr>"
      using finish_fresh [OF n] tg by simp
    have s5: "stage ?s = Wait_resp MAIL_FROM start
              \<and> awaited (buffer ?s) = None \<and> now - start > TIMEOUT \<longrightarrow>
             resolved (step (Poll now) ?s) =
               Some \<lparr>host = h, rcpt = \<lparr>code = 0, message = ''protocol_error: smtp command timeout''\<rparr>\<rparr>"
      using protocol_error_fresh [OF n] tg by (simp add: sentinel_def waitResp_def)
    have s6: "stage ?s = Wait_resp RCPT_TO start
              \<and> awaited (buffer ?s) = None \<and> now - start > TIMEOUT \<longrightarrow>
             resolved (step (Poll now) ?s) =
               Some \<lparr>host = h, rcpt = \<lparr>code = 0, message = ''smtp command timeout''\<rparr>\<rparr>"
      using finish_fresh [OF n] tg by (simp add: waitResp_def)
    from s1 s2 s3 s4 s5 s6 show "resolved (step (Socket_error msg) ?s) =
          Some \<lparr>host = h, rcpt = \<lparr>code = 0, message = ''socket_error: '' @ msg\<rparr>\<rparr>
        \<and> resolved (step Timer_fired ?s) =
          Some \<lparr>host = h, rcpt = \<lparr>code = 0, message = ''timeout''\<rparr>\<rparr>
        \<and> (stage ?s = Wait_write MAIL_FROM \<longrightarrow>
             resolved (step (Write_done (Some msg) now) ?s) =
               Some \<lparr>host = h, rcpt = \<lparr>code = 0, message = ''protocol_error: '' @ msg\<rparr>\<rparr>)
        \<and> (stage ?s = Wait_write RCPT_TO \<longrightarrow>
             resolved (step (Write_done (Some msg) now) ?s) =
               Some \<lparr>host = h, rcpt = \<lparr>code = 0, message = msg\<rparr>\<rparr>)
        \<and> (stage ?s = Wait_resp MAIL_FROM start
              \<and> awaited (buffer ?s) = None \<and> now - start > TIMEOUT \<longrightarrow>
             resolved (step (Poll now) ?s) =
               Some \<lparr>host = h, rcpt = \<lparr>code = 0, message = ''protocol_error: smtp command timeout''\<rparr>\<rparr>)
        \<and> (stage ?s = Wait_resp RCPT_TO start
              \<and> awaited (buffer ?s) = None \<and> now - start > TIMEOUT \<longrightarrow>
             resolved (step (Poll now) ?s) =
               Some \<lparr>host = h, rcpt = \<lparr>code = 0, message = ''smtp command timeout''\<rparr>\<rparr>)"
      by (intro conjI)
  qed
  from A B C show ?thesis by (intro conjI)
qed

text \<open>A domain that does not resolve, and the failures at five stages of a session.\<close>
theorem no_exception_escapes_witness:
  "(\<exists>c log. verifyEmail unreachable_world ''bob@example.org'' ''me@x.org'' = Some (c, log) \<and>
       label c \<in> {''invalid_format'', ''role_based'', ''no_mx_record'', ''disposable'',
               ''valid'', ''catch_all'', ''invalid'', ''unknown''})
   \<and> (\<exists>r. smtpProbe ''mx'' 25 ''a@b'' ''c@d'' (take 7 (dialogue ''250 ok'')) = Some r)
   \<and> resolved (step (Socket_error ''ECONNRESET'') (run (init ''mx'' ''a@b'' ''c@d'') (take 1 (dialogue ''250 ok'')))) =
       Some \<lparr>host = ''mx'', rcpt = \<lparr>code = 0, message = ''socket_error: '' @ ''ECONNRESET''\<rparr>\<rparr>
   \<and> resolved (step Timer_fired (run (init ''mx'' ''a@b'' ''c@d'') (take 1 (dialogue ''250 ok'')))) =
       Some \<lparr>host = ''mx'', rcpt = \<lparr>code = 0, message = ''timeout''\<rparr>\<rparr>
   \<and> resolved (step (Write_done (Some ''EPIPE'') 115) (run (init ''mx'' ''a@b'' ''c@d'') (take 6 (dialogue ''250 ok'')))) =
       Some \<lparr>host = ''mx'', rcpt = \<lparr>code = 0, message = ''protocol_error: '' @ ''EPIPE''\<rparr>\<rparr>
   \<and> resolved (step (Write_done (Some ''EPIPE'') 175) (run (init ''mx'' ''a@b'' ''c@d'') (take 9 (dialogue ''250 ok'')))) =
       Some \<lparr>host = ''mx'', rcpt = \<lparr>code = 0, message = ''EPIPE''\<rparr>\<rparr>
   \<and> resolved (step (Poll 9000) (run (init ''mx'' ''a@b'' ''c@d'') (take 7 (dialogue ''250 ok'')))) =
       Some \<lparr>host = ''mx'', rcpt = \<lparr>code = 0, message = ''protocol_error: smtp command timeout''\<rparr>\<rparr>
   \<and> resolved (step (Poll 9000) (run (init ''mx'' ''a@b'' ''c@d'') (take 10 (dialogue ''250 ok'')))) =
       Some \<lparr>host = ''mx'', rcpt = \<lparr>code = 0, message = ''smtp command timeout''\<rparr>\<rparr>"
proof -
  note t = no_exception_escapes [where e = unreachable_world and email = "''bob@example.org''"
      and sender_addr = "''me@x.org''" and h = "''mx''" and f = "''a@b''" and t = "''c@d''" and port = 25]
  have 1: "\<exists>c log. verifyEmail unreachable_world ''bob@example.org'' ''me@x.org'' = Some (c, log) \<and>
       label c \<in> {''invalid_format'', ''role_based'', ''no_mx_record'', ''disposable'',
               ''valid'', ''catch_all'', ''invalid'', ''unknown''}"
    by (rule t [THEN conjunct1])
  have 2: "\<exists>r. smtpProbe ''mx'' 25 ''a@b'' ''c@d'' (take 7 (dialogue ''250 ok'')) = Some r"
    by (rule t [THEN conjunct2, THEN conjunct1])
  have a: "resolved (step (Socket_error ''ECONNRESET'') (run (init ''mx'' ''a@b'' ''c@d'') (take 1 (dialogue ''250 ok'')))) =
       Some \<lparr>host = ''mx'', rcpt = \<lparr>code = 0, message = ''socket_error: '' @ ''ECONNRESET''\<rparr>\<rparr>"
    and b: "resolved (step Timer_fired (run (init ''mx'' ''a@b'' ''c@d'') (take 1 (dialogue ''250 ok'')))) =
       Some \<lparr>host = ''mx'', rcpt = \<lparr>code = 0, message = ''timeout''\<rparr>\<rparr>"
    using no_exception_escapes [where h = "''mx''" and f = "''a@b''" and t = "''c@d''" and evs = "take 1 (dialogue ''250 ok'')" and msg = "''ECONNRESET''", THEN conjunct2, THEN conjunct2] after_connect by blast+
  have c: "resolved (step (Write_done (Some ''EPIPE'') 115) (run (init ''mx'' ''a@b'' ''c@d'') (take 6 (dialogue ''250 ok'')))) =
       Some \<lparr>host = ''mx'', rcpt = \<lparr>code = 0, message = ''protocol_error: '' @ ''EPIPE''\<rparr>\<rparr>"
    using no_exception_escapes [where h = "''mx''" and f = "''a@b''" and t = "''c@d''" and evs = "take 6 (dialogue ''250 ok'')" and msg = "''EPIPE''" and now = 115, THEN conjunct2, THEN conjunct2] before_mail_write by blast
  have d: "resolved (step (Write_done (Some ''EPIPE'') 175) (run (init ''mx'' ''a@b'' ''c@d'') (take 9 (dialogue ''250 ok'')))) =
       Some \<lparr>host = ''mx'', rcpt = \<lparr>code = 0, message = ''EPIPE''\<rparr>\<rparr>"
    using no_exception_escapes [where h = "''mx''" and f = "''a@b''" and t = "''c@d''" and evs = "take 9 (dialogue ''250 ok'')" and msg = "''EPIPE''" and now = 175, THEN conjunct2, THEN conjunct2] before_rcpt_write by blast
  have e: "resolved (step (Poll 9000) (run (init ''mx'' ''a@b'' ''c@d'') (take 7 (dialogue ''250 ok'')))) =
       Some \<lparr>host = ''mx'', rcpt = \<lparr>code = 0, message = ''protocol_error: smtp command timeout''\<rparr>\<rparr>"
    using no_exception_escapes [where h = "''mx''" and f = "''a@b''" and t = "''c@d''" and evs = "take 7 (dialogue ''250 ok'')" and now = 9000 and start = 120, THEN conjunct2, THEN conjunct2] awaiting_mail_reply command_wait_exceeded by blast
  have f: "resolved (step (Poll 9000) (run (init ''mx'' ''a@b'' ''c@d'') (take 10 (dialogue ''250 ok'')))) =
       Some \<lparr>host = ''mx'', rcpt = \<lparr>code = 0, message = ''smtp command timeout''\<rparr>\<rparr>"
    using no_exception_escapes [where h = "''mx''" and f = "''a@b''" and t = "''c@d''" and evs = "take 10 (dialogue ''250 ok'')" and now = 9000 and start = 180, THEN conjunct2, THEN conjunct2] awaiting_rcpt_reply command_wait_exceeded by blast
  from 1 2 a b c d e f show ?thesis by (intro conjI)
qed

subsection \<open>The static checks\<close>

lemma probe_hosts_class:
  "probe_hosts e email f d log hs = Some (c, l) \<Longrightarrow> c \<in> {Valid, Catch_all, Invalid, Unknown}"
proof (induction hs arbitrary: log)
  case Nil
  then show ?case by simp
next
  case (Cons h hs)
  then show ?case
    by (auto simp: Let_def split: option.splits if_splits)
qed

text \<open>
  \<^bold>\<open>C7\<close>: the static checks of \<^verbatim>\<open>verifyEmail\<close> in their order. An address that does not
  split into exactly two parts on \<^verbatim>\<open>@\<close> is \<^verbatim>\<open>invalid_format\<close>, with nothing done. A local
  part whose lower-case form is in the role-based list is \<^verbatim>\<open>role_based\<close>, before any DNS
  query and whatever the domain. Otherwise an empty host list is \<^verbatim>\<open>no_mx_record\<close>, also
  for a disposable domain; and a disposable domain is \<^verbatim>\<open>disposable\<close> when the host list is
  not empty, and only then: the MX query has been made, and no host has been probed.
\<close>
theorem static_short_circuits:
  "(length (split_on (CHR ''@'') email) \<noteq> 2 \<longrightarrow> verifyEmail e email f = Some (Invalid_format, []))
   \<and> (split_on (CHR ''@'') email = [l, d] \<and> toLowerCase l \<in> set roleBased \<longrightarrow>
        verifyEmail e email f = Some (Role_based, []))
   \<and> (split_on (CHR ''@'') email = [l, d] \<and> toLowerCase l \<notin> set roleBased
        \<and> fst (getMxHosts e d) = [] \<longrightarrow>
        verifyEmail e email f = Some (No_mx_record, snd (getMxHosts e d)))
   \<and> (split_on (CHR ''@'') email = [l, d] \<and> toLowerCase l \<notin> set roleBased
        \<and> fst (getMxHosts e d) \<noteq> [] \<and> d \<in> disposableDomains \<longrightarrow>
        verifyEmail e email f = Some (Disposable, snd (getMxHosts e d)))
   \<and> (verifyEmail e email f = Some (Disposable, log) \<longrightarrow>
        (\<exists>l' d'. split_on (CHR ''@'') email = [l', d'] \<and> toLowerCase l' \<notin> set roleBased
           \<and> fst (getMxHosts e d') \<noteq> [] \<and> d' \<in> disposableDomains
           \<and> log = snd (getMxHosts e d') \<and> Dns_mx d' \<in> set log))"
proof (intro conjI impI)
  assume "length (split_on (CHR ''@'') email) \<noteq> 2"
  then show "verifyEmail e email f = Some (Invalid_format, [])"
    by (simp add: verifyEmail_def Let_def)
next
  assume "split_on (CHR ''@'') email = [l, d] \<and> toLowerCase l \<in> set roleBased"
  then show "verifyEmail e email f = Some (Role_based, [])"
    by (simp add: verifyEmail_def Let_def)
next
  assume "split_on (CHR ''@'') email = [l, d] \<and> toLowerCase l \<notin> set roleBased
        \<and> fst (getMxHosts e d) = []"
  then show "verifyEmail e email f = Some (No_mx_record, snd (getMxHosts e d))"
    by (simp add: verifyEmail_def Let_def case_prod_beta)
next
  assume "split_on (CHR ''@'') email = [l, d] \<and> toLowerCase l \<notin> set roleBased
        \<and> fst (getMxHosts e d) \<noteq> [] \<and> d \<in> disposableDomains"
  then show "verifyEmail e email f = Some (Disposable, snd (getMxHosts e d))"
    by (simp add: verifyEmail_def Let_def case_prod_beta)
next
  assume v: "verifyEmail e email f = Some (Disposable, log)"
  let ?parts = "split_on (CHR ''@'') email"
  from v have len: "length ?parts = 2"
    by (auto simp: verifyEmail_def Let_def split: if_splits)
  then obtain l' d' where p: "?parts = [l', d']"
    by (cases ?parts; cases "tl ?parts"; cases "tl (tl ?parts)") auto
  from v p have nr: "toLowerCase l' \<notin> set roleBased"
    by (auto simp: verifyEmail_def Let_def split: if_splits)
  obtain hosts dlog where g: "getMxHosts e d' = (hosts, dlog)"
    by (cases "getMxHosts e d'")
  from v p nr g have h: "hosts \<noteq> []"
    by (auto simp: verifyEmail_def Let_def split: if_splits)
  have dd: "d' \<in> disposableDomains"
  proof (rule ccontr)
    assume "d' \<notin> disposableDomains"
    with v p nr g h have "probe_hosts e email f d' dlog hosts = Some (Disposable, log)"
      by (simp add: verifyEmail_def Let_def)
    from probe_hosts_class [OF this] show False by simp
  qed
  from v p nr g h dd have lg: "log = dlog"
    by (simp add: verifyEmail_def Let_def)
  have "Dns_mx d' \<in> set (snd (getMxHosts e d'))"
    by (auto simp: getMxHosts_def split: sum.splits)
  with p nr g h dd lg
  show "\<exists>l' d'. split_on (CHR ''@'') email = [l', d'] \<and> toLowerCase l' \<notin> set roleBased
           \<and> fst (getMxHosts e d') \<noteq> [] \<and> d' \<in> disposableDomains
           \<and> log = snd (getMxHosts e d') \<and> Dns_mx d' \<in> set log"
    by auto
qed

text \<open>One address for each of the four results.\<close>
theorem static_short_circuits_witness:
  "verifyEmail unreachable_world ''a@b@c'' ''me@x.org'' = Some (Invalid_format, [])
   \<and> verifyEmail unreachable_world ''Admin@nowhere.invalid'' ''me@x.org'' = Some (Role_based, [])
   \<and> verifyEmail unreachable_world ''bob@tempmail.com'' ''me@x.org'' =
       Some (No_mx_record, [Dns_mx ''tempmail.com'', Dns_a ''tempmail.com''])
   \<and> verifyEmail (world two_hosts accept_all) ''bob@tempmail.com'' ''me@x.org'' =
       Some (Disposable, [Dns_mx ''tempmail.com''])
   \<and> (\<exists>l' d'. split_on (CHR ''@'') ''bob@tempmail.com'' = [l', d']
         \<and> fst (getMxHosts (world two_hosts accept_all) d') \<noteq> []
         \<and> Dns_mx d' \<in> set [Dns_mx ''tempmail.com''])"
proof -
  note t = static_short_circuits
  have s3: "length (split_on (CHR ''@'') ''a@b@c'') \<noteq> 2" by code_simp
  have sa: "split_on (CHR ''@'') ''Admin@nowhere.invalid'' = [''Admin'', ''nowhere.invalid'']
      \<and> toLowerCase ''Admin'' \<in> set roleBased"
    by code_simp
  have sb: "split_on (CHR ''@'') ''bob@tempmail.com'' = [''bob'', ''tempmail.com'']" by code_simp
  have nb: "toLowerCase ''bob'' \<notin> set roleBased" by code_simp
  have dt: "''tempmail.com'' \<in> disposableDomains" by (simp add: disposableDomains_def)
  have 1: "verifyEmail unreachable_world ''a@b@c'' ''me@x.org'' = Some (Invalid_format, [])"
    using t [where email = "''a@b@c''", THEN conjunct1] s3 by (rule mp)
  have 2: "verifyEmail unreachable_world ''Admin@nowhere.invalid'' ''me@x.org'' = Some (Role_based, [])"
    using t [where email = "''Admin@nowhere.invalid''", THEN conjunct2, THEN conjunct1] sa by (rule mp)
  have "verifyEmail unreachable_world ''bob@tempmail.com'' ''me@x.org'' =
       Some (No_mx_record, snd (getMxHosts unreachable_world ''tempmail.com''))"
    using t [where email = "''bob@tempmail.com''" and e = unreachable_world and l = "''bob''" and d = "''tempmail.com''",
        THEN conjunct2, THEN conjunct2, THEN conjunct1]
    by (rule mp) (simp add: sb nb unreachable_resolved)
  then have 3: "verifyEmail unreachable_world ''bob@tempmail.com'' ''me@x.org'' =
       Some (No_mx_record, [Dns_mx ''tempmail.com'', Dns_a ''tempmail.com''])"
    by (simp add: unreachable_resolved)
  have "verifyEmail (world two_hosts accept_all) ''bob@tempmail.com'' ''me@x.org'' =
       Some (Disposable, snd (getMxHosts (world two_hosts accept_all) ''tempmail.com''))"
    using t [where email = "''bob@tempmail.com''" and e = "world two_hosts accept_all" and l = "''bob''" and d = "''tempmail.com''",
        THEN conjunct2, THEN conjunct2, THEN conjunct2, THEN conjunct1]
    by (rule mp) (simp add: sb nb dt two_hosts_resolved)
  then have 4: "verifyEmail (world two_hosts accept_all) ''bob@tempmail.com'' ''me@x.org'' =
       Some (Disposable, [Dns_mx ''tempmail.com''])"
    by (simp add: two_hosts_resolved)
  have "\<exists>l' d'. split_on (CHR ''@'') ''bob@tempmail.com'' = [l', d'] \<and> toLowerCase l' \<notin> set roleBased
           \<and> fst (getMxHosts (world two_hosts accept_all) d') \<noteq> [] \<and> d' \<in> disposableDomains
           \<and> [Dns_mx ''tempmail.com''] = snd (getMxHosts (world two_hosts accept_all) d')
           \<and> Dns_mx d' \<in> set [Dns_mx ''tempmail.com'']"
    using t [where email = "''bob@tempmail.com''" and e = "world two_hosts accept_all" and f = "''me@x.org''"
          and log = "[Dns_mx ''tempmail.com'']",
        THEN conjunct2, THEN conjunct2, THEN conjunct2, THEN conjunct2] 4
    by (rule mp)
  then have 5: "\<exists>l' d'. split_on (CHR ''@'') ''bob@tempmail.com'' = [l', d']
         \<and> fst (getMxHosts (world two_hosts accept_all) d') \<noteq> []
         \<and> Dns_mx d' \<in> set [Dns_mx ''tempmail.com'']"
    by blast
  from 1 2 3 4 5 show ?thesis by (intro conjI)
qed

lemma disposable_lower: "x \<in> disposableDomains \<Longrightarrow> toLowerCase x = x"
proof -
  have "toLowerCase ''tempmail.com'' = ''tempmail.com''" by code_simp
  moreover have "toLowerCase ''10minutemail.com'' = ''10minutemail.com''" by code_simp
  moreover have "toLowerCase ''guerrillamail.com'' = ''guerrillamail.com''" by code_simp
  moreover have "toLowerCase ''yopmail.com'' = ''yopmail.com''" by code_simp
  moreover have "toLowerCase ''mailinator.com'' = ''mailinator.com''" by code_simp
  moreover assume "x \<in> disposableDomains"
  ultimately show ?thesis unfolding disposableDomains_def by blast
qed

lemma roleBased_lower: "x \<in> set roleBased \<Longrightarrow> toLowerCase x = x"
proof -
  have "list_all (\<lambda>x. toLowerCase x = x) roleBased" by code_simp
  moreover assume "x \<in> set roleBased"
  ultimately show ?thesis by (simp add: list_all_iff)
qed

text \<open>
  \<^bold>\<open>C10\<close>: a domain that differs from an entry of the disposable set only in letter case
  is not in the set, and \<^verbatim>\<open>verifyEmail\<close> never returns \<^verbatim>\<open>disposable\<close> for it; whereas a
  local part that equals a role-based entry up to letter case is \<^verbatim>\<open>role_based\<close>.
\<close>
theorem disposable_case_sensitive:
  "(split_on (CHR ''@'') email = [l, d] \<and> entry \<in> disposableDomains \<and> d \<noteq> entry
      \<and> toLowerCase d = toLowerCase entry \<longrightarrow>
      d \<notin> disposableDomains \<and> (\<forall>log. verifyEmail e email f \<noteq> Some (Disposable, log)))
   \<and> (split_on (CHR ''@'') email = [l, d] \<and> role \<in> set roleBased
      \<and> toLowerCase l = toLowerCase role \<longrightarrow>
      verifyEmail e email f = Some (Role_based, []))"
proof (intro conjI impI)
  assume a: "split_on (CHR ''@'') email = [l, d] \<and> entry \<in> disposableDomains \<and> d \<noteq> entry
      \<and> toLowerCase d = toLowerCase entry"
  show nd: "d \<notin> disposableDomains"
  proof
    assume "d \<in> disposableDomains"
    then have 1: "toLowerCase d = d" by (rule disposable_lower)
    from a have "entry \<in> disposableDomains" by blast
    then have 2: "toLowerCase entry = entry" by (rule disposable_lower)
    from a have 3: "toLowerCase d = toLowerCase entry" by blast
    have "d = entry" using 3 1 2 by (rule box_equals)
    with a show False by blast
  qed
  show "\<forall>log. verifyEmail e email f \<noteq> Some (Disposable, log)"
  proof (intro allI notI)
    fix log assume v: "verifyEmail e email f = Some (Disposable, log)"
    obtain hosts dlog where g: "getMxHosts e d = (hosts, dlog)" by (cases "getMxHosts e d")
    from v a nd g have "probe_hosts e email f d dlog hosts = Some (Disposable, log)"
      by (auto simp: verifyEmail_def Let_def split: if_splits)
    from probe_hosts_class [OF this] show False by simp
  qed
next
  assume a: "split_on (CHR ''@'') email = [l, d] \<and> role \<in> set roleBased
      \<and> toLowerCase l = toLowerCase role"
  then have "toLowerCase l \<in> set roleBased" by (simp add: roleBased_lower)
  with a show "verifyEmail e email f = Some (Role_based, [])"
    by (simp add: verifyEmail_def Let_def)
qed

text \<open>\<^verbatim>\<open>TempMail.com\<close> against the entry \<^verbatim>\<open>tempmail.com\<close>, and the local part
  \<^verbatim>\<open>ADMIN\<close>.\<close>
theorem disposable_case_sensitive_witness:
  "''TempMail.com'' \<notin> disposableDomains
   \<and> ''tempmail.com'' \<in> disposableDomains
   \<and> toLowerCase ''TempMail.com'' = toLowerCase ''tempmail.com''
   \<and> verifyEmail (world two_hosts accept_all) ''bob@TempMail.com'' ''me@x.org'' \<noteq>
       Some (Disposable, [Dns_mx ''TempMail.com''])
   \<and> verifyEmail (world two_hosts accept_all) ''bob@tempmail.com'' ''me@x.org'' =
       Some (Disposable, [Dns_mx ''tempmail.com''])
   \<and> verifyEmail (world two_hosts accept_all) ''ADMIN@TempMail.com'' ''me@x.org'' =
       Some (Role_based, [])"
proof -
  note t = disposable_case_sensitive
  have p: "split_on (CHR ''@'') ''bob@TempMail.com'' = [''bob'', ''TempMail.com'']
      \<and> ''tempmail.com'' \<in> disposableDomains \<and> ''TempMail.com'' \<noteq> ''tempmail.com''
      \<and> toLowerCase ''TempMail.com'' = toLowerCase ''tempmail.com''"
  proof (intro conjI)
    show "split_on (CHR ''@'') ''bob@TempMail.com'' = [''bob'', ''TempMail.com'']" by code_simp
    show "''tempmail.com'' \<in> disposableDomains" by (simp add: disposableDomains_def)
    show "''TempMail.com'' \<noteq> ''tempmail.com''" by simp
    show "toLowerCase ''TempMail.com'' = toLowerCase ''tempmail.com''" by code_simp
  qed
  have q: "split_on (CHR ''@'') ''ADMIN@TempMail.com'' = [''ADMIN'', ''TempMail.com'']
      \<and> ''admin'' \<in> set roleBased \<and> toLowerCase ''ADMIN'' = toLowerCase ''admin''"
  proof (intro conjI)
    show "split_on (CHR ''@'') ''ADMIN@TempMail.com'' = [''ADMIN'', ''TempMail.com'']" by code_simp
    show "''admin'' \<in> set roleBased" by (simp add: roleBased_def)
    show "toLowerCase ''ADMIN'' = toLowerCase ''admin''" by code_simp
  qed
  have 1: "''TempMail.com'' \<notin> disposableDomains
      \<and> (\<forall>log. verifyEmail (world two_hosts accept_all) ''bob@TempMail.com'' ''me@x.org'' \<noteq> Some (Disposable, log))"
    using t [where email = "''bob@TempMail.com''" and entry = "''tempmail.com''", THEN conjunct1] p
    by (rule mp)
  have 2: "verifyEmail (world two_hosts accept_all) ''ADMIN@TempMail.com'' ''me@x.org'' = Some (Role_based, [])"
    using t [where email = "''ADMIN@TempMail.com''" and role = "''admin''", THEN conjunct2] q
    by (rule mp)
  have 3: "verifyEmail (world two_hosts accept_all) ''bob@tempmail.com'' ''me@x.org'' =
       Some (Disposable, [Dns_mx ''tempmail.com''])"
  proof -
    have "split_on (CHR ''@'') ''bob@tempmail.com'' = [''bob'', ''tempmail.com'']" by code_simp
    moreover have "toLowerCase ''bob'' \<notin> set roleBased" by code_simp
    moreover have "''tempmail.com'' \<in> disposableDomains" by (simp add: disposableDomains_def)
    ultimately show ?thesis
      by (simp add: verifyEmail_def Let_def two_hosts_resolved)
  qed
  from 1 2 3 p show ?thesis by blast
qed

subsection \<open>The loop over the hosts\<close>

lemma real_probes_simps [simp]:
  "real_probes f email [] = []"
  "real_probes f email (h # hs) = Smtp h 25 f email # real_probes f email hs"
  "real_probes f email (xs @ ys) = real_probes f email xs @ real_probes f email ys"
  by (simp_all add: real_probes_def)

lemma probe_hosts_passed:
  assumes "probe e log h f email = Some r" and "\<not> conclusive (code (rcpt r))"
  shows "probe_hosts e email f d log (h # hs) = probe_hosts e email f d (log @ [Smtp h 25 f email]) hs"
  using assms by (auto simp: Let_def in_range_def conclusive_def)

lemma probe_hosts_pass:
  assumes "\<forall>i<length pre. \<exists>r. probe e (log @ real_probes f email (take i pre)) (pre ! i) f email = Some r
              \<and> \<not> conclusive (code (rcpt r))"
  shows "probe_hosts e email f d log (pre @ rest) =
         probe_hosts e email f d (log @ real_probes f email pre) rest"
  using assms
proof (induction pre arbitrary: log)
  case Nil
  show ?case by simp
next
  case (Cons h pre)
  from Cons.prems have "\<exists>r. probe e (log @ real_probes f email (take 0 (h # pre))) ((h # pre) ! 0) f email = Some r
              \<and> \<not> conclusive (code (rcpt r))" by blast
  then obtain r where r: "probe e log h f email = Some r" "\<not> conclusive (code (rcpt r))"
    by auto
  have tail: "\<forall>i<length pre. \<exists>r. probe e ((log @ [Smtp h 25 f email]) @ real_probes f email (take i pre)) (pre ! i) f email = Some r
              \<and> \<not> conclusive (code (rcpt r))"
  proof (intro allI impI)
    fix i assume "i < length pre"
    then have "Suc i < length (h # pre)" by simp
    with Cons.prems have "\<exists>r. probe e (log @ real_probes f email (take (Suc i) (h # pre))) ((h # pre) ! Suc i) f email = Some r
              \<and> \<not> conclusive (code (rcpt r))" by blast
    then show "\<exists>r. probe e ((log @ [Smtp h 25 f email]) @ real_probes f email (take i pre)) (pre ! i) f email = Some r
              \<and> \<not> conclusive (code (rcpt r))" by simp
  qed
  have "probe_hosts e email f d log ((h # pre) @ rest) =
        probe_hosts e email f d (log @ [Smtp h 25 f email]) (pre @ rest)"
    using probe_hosts_passed [OF r] by simp
  also have "\<dots> = probe_hosts e email f d ((log @ [Smtp h 25 f email]) @ real_probes f email pre) rest"
    by (rule Cons.IH [OF tail])
  finally show ?case by simp
qed

lemma verifyEmail_loop:
  assumes "split_on (CHR ''@'') email = [l, d]" and "toLowerCase l \<notin> set roleBased"
    and "getMxHosts e d = (hosts, dlog)" and "hosts \<noteq> []" and "d \<notin> disposableDomains"
  shows "verifyEmail e email f = probe_hosts e email f d dlog hosts"
  using assms by (simp add: verifyEmail_def Let_def)

lemma probe_hosts_accept:
  assumes "probe e log h f email = Some r1" and "in_range 200 300 (code (rcpt r1))"
    and "probe e (log @ [Smtp h 25 f email]) h f
           (randomUser (dateNow e (log @ [Smtp h 25 f email])) (random1000 e (log @ [Smtp h 25 f email])) @ ''@'' @ d) = Some r2"
  shows "probe_hosts e email f d log (h # hs) =
     Some (if in_range 200 300 (code (rcpt r2)) then Catch_all else Valid,
           log @ [Smtp h 25 f email, Smtp h 25 f
              (randomUser (dateNow e (log @ [Smtp h 25 f email])) (random1000 e (log @ [Smtp h 25 f email])) @ ''@'' @ d)])"
  using assms by (auto simp: Let_def in_range_def)

lemma probe_hosts_reject:
  assumes "probe e log h f email = Some r" and "in_range 500 600 (code (rcpt r))"
  shows "probe_hosts e email f d log (h # hs) = Some (Invalid, log @ [Smtp h 25 f email])"
  using assms by (auto simp: Let_def in_range_def)

lemma probe_hosts_defer:
  assumes "probe e log h f email = Some r" and "in_range 400 500 (code (rcpt r))"
  shows "probe_hosts e email f d log (h # hs) = Some (Unknown, log @ [Smtp h 25 f email])"
  using assms by (auto simp: Let_def in_range_def)

lemma bob_split: "split_on (CHR ''@'') ''bob@example.org'' = [''bob'', ''example.org'']"
  by code_simp

lemma bob_not_role: "toLowerCase ''bob'' \<notin> set roleBased"
  by code_simp

lemma example_not_disposable: "''example.org'' \<notin> disposableDomains"
  by (simp add: disposableDomains_def)

lemma decimal_42: "decimal 42 = ''42''"
  by (simp add: decimal.simps digit_char_def)

lemma decimal_now: "decimal 1700000000000 = ''1700000000000''"
  by (simp add: decimal.simps digit_char_def)

lemma fake_address: "randomUser (dateNow (world mx net) log) (random1000 (world mx net) log) @ ''@'' @ ''example.org''
   = ''catchall_test_1700000000000_42@example.org''"
  by (simp add: world_def randomUser_def decimal_42 decimal_now)

lemma fake_address_cons: "randomUser (dateNow (world mx net) log) (random1000 (world mx net) log) @ CHR ''@'' # ''example.org''
   = ''catchall_test_1700000000000_42@example.org''"
  using fake_address [of mx net log] by simp

lemma selective_mx1: "probe (world two_hosts silent_then_selective) log ''mx1.example.org'' ''me@x.org'' ''bob@example.org''
   = Some \<lparr>host = ''mx1.example.org'', rcpt = \<lparr>code = 0, message = ''timeout''\<rparr>\<rparr>"
  by (simp add: probe_def world_def silent_then_selective_def probe_silent)

lemma selective_mx2_real: "probe (world two_hosts silent_then_selective) log ''mx2.example.org'' ''me@x.org'' ''bob@example.org''
   = Some \<lparr>host = ''mx2.example.org'', rcpt = \<lparr>code = 250, message = ''250 ok''\<rparr>\<rparr>"
  by (simp add: probe_def world_def silent_then_selective_def probe_250)

lemma selective_mx2_fake: "probe (world two_hosts silent_then_selective) log ''mx2.example.org'' ''me@x.org'' ''catchall_test_1700000000000_42@example.org''
   = Some \<lparr>host = ''mx2.example.org'', rcpt = \<lparr>code = 550, message = ''550 no such user''\<rparr>\<rparr>"
  by (simp add: probe_def world_def silent_then_selective_def probe_550)

lemma accept_all_probe: "probe (world two_hosts accept_all) log h ''me@x.org'' t
   = Some \<lparr>host = h, rcpt = \<lparr>code = 250, message = ''250 ok''\<rparr>\<rparr>"
  by (simp add: probe_def world_def accept_all_def probe_250)

lemma odd_mx1: "probe (world two_hosts odd_then_reject) log ''mx1.example.org'' ''me@x.org'' ''bob@example.org''
   = Some \<lparr>host = ''mx1.example.org'', rcpt = \<lparr>code = 354, message = ''354 go ahead''\<rparr>\<rparr>"
  by (simp add: probe_def world_def odd_then_reject_def probe_354)

lemma odd_mx2: "probe (world two_hosts odd_then_reject) log ''mx2.example.org'' ''me@x.org'' ''bob@example.org''
   = Some \<lparr>host = ''mx2.example.org'', rcpt = \<lparr>code = 550, message = ''550 no such user''\<rparr>\<rparr>"
  by (simp add: probe_def world_def odd_then_reject_def probe_550)

lemma try_later_probe: "probe (world two_hosts try_later) log h ''me@x.org'' t
   = Some \<lparr>host = h, rcpt = \<lparr>code = 450, message = ''450 try again later''\<rparr>\<rparr>"
  by (simp add: probe_def world_def try_later_def probe_450)

text \<open>What \<^verbatim>\<open>randomUser\<close> generates: the digits of \<^const>\<open>decimal\<close> spell its argument, so
  the local part determines the time and the random number it was generated from; and it
  holds no \<^verbatim>\<open>@\<close>.\<close>

lemma digit_char_digit:
  assumes "k < 10"
  shows "is_digit (digit_char k) \<and> digit_val (digit_char k) = k"
proof -
  from assms have "k \<in> {0, 1, 2, 3, 4, 5, 6, 7, 8, 9}" by auto
  then show ?thesis
    by (auto simp: digit_char_def is_digit_def digit_val_def)
qed

lemma decimal_digits: "c \<in> set (decimal n) \<Longrightarrow> is_digit c"
proof (induction n arbitrary: c rule: decimal.induct)
  case (1 n)
  show ?case
  proof (cases "n < 10")
    case True
    with "1.prems" show ?thesis by (simp add: decimal.simps [of n] digit_char_digit)
  next
    case False
    with "1.prems" have "c \<in> set (decimal (n div 10)) \<or> c = digit_char (n mod 10)"
      by (auto simp: decimal.simps [of n])
    then show ?thesis
    proof
      assume "c \<in> set (decimal (n div 10))"
      with False show ?thesis by (rule "1.IH")
    next
      assume "c = digit_char (n mod 10)"
      then show ?thesis by (simp add: digit_char_digit)
    qed
  qed
qed

lemma decimal_value_snoc: "decimal_value (ds @ [c]) = 10 * decimal_value ds + digit_val c"
  by (simp add: decimal_value_def)

lemma decimal_value_decimal: "decimal_value (decimal n) = n"
proof (induction n rule: decimal.induct)
  case (1 n)
  show ?case
  proof (cases "n < 10")
    case True
    then show ?thesis by (simp add: decimal.simps [of n] decimal_value_def digit_char_digit)
  next
    case False
    then have "decimal_value (decimal (n div 10)) = n div 10" by (rule "1.IH")
    with False show ?thesis
      by (simp add: decimal.simps [of n] decimal_value_snoc digit_char_digit)
  qed
qed

lemma decimal_inj:
  assumes "decimal n = decimal m"
  shows "n = m"
proof -
  have "n = decimal_value (decimal n)" by (simp only: decimal_value_decimal)
  also have "\<dots> = decimal_value (decimal m)" by (simp only: assms)
  also have "\<dots> = m" by (rule decimal_value_decimal)
  finally show ?thesis .
qed

lemma decimal_no_underscore: "CHR ''_'' \<notin> set (decimal n)"
proof
  assume "CHR ''_'' \<in> set (decimal n)"
  then have "is_digit (CHR ''_'')" by (rule decimal_digits)
  then show False by (simp add: is_digit_def)
qed

lemma decimal_no_at: "CHR ''@'' \<notin> set (decimal n)"
proof
  assume "CHR ''@'' \<in> set (decimal n)"
  then have "is_digit (CHR ''@'')" by (rule decimal_digits)
  then show False by (simp add: is_digit_def)
qed

lemma randomUser_inj:
  assumes "randomUser n r = randomUser n' r'"
  shows "n = n' \<and> r = r'"
proof -
  from assms have "decimal n @ CHR ''_'' # decimal r = decimal n' @ CHR ''_'' # decimal r'"
    by (simp add: randomUser_def)
  then have "decimal n = decimal n' \<and> decimal r = decimal r'"
    by (simp add: append_Cons_eq_iff decimal_no_underscore)
  then show ?thesis by (simp add: decimal_inj)
qed

lemma randomUser_no_at: "CHR ''@'' \<notin> set (randomUser n r)"
  by (simp add: randomUser_def decimal_no_at)

lemma split_on_no_sep: "sep \<notin> set s \<Longrightarrow> split_on sep s = [s]"
  by (induction s) auto

lemma split_on_append: "sep \<notin> set a \<Longrightarrow> split_on sep (a @ sep # b) = a # split_on sep b"
  by (induction a) auto

lemma split_on_not_Nil: "split_on sep s \<noteq> []"
  by (induction s) (auto split: list.splits)

lemma split_on_parts: "p \<in> set (split_on sep s) \<Longrightarrow> sep \<notin> set p"
proof (induction s arbitrary: p)
  case Nil
  then show ?case by simp
next
  case (Cons c s)
  show ?case
  proof (cases "c = sep")
    case True
    with Cons show ?thesis by auto
  next
    case False
    obtain q qs where q: "split_on sep s = q # qs"
      using split_on_not_Nil [of sep s] by (cases "split_on sep s") auto
    with False Cons.prems have "p = c # q \<or> p \<in> set qs" by auto
    then show ?thesis
    proof
      assume "p = c # q"
      moreover have "sep \<notin> set q" using Cons.IH [of q] q by simp
      ultimately show ?thesis using False by auto
    next
      assume "p \<in> set qs"
      then show ?thesis using Cons.IH [of p] q by simp
    qed
  qed
qed

lemma split_on_one: "split_on sep x = [d] \<Longrightarrow> x = d"
proof (induction x arbitrary: d)
  case Nil
  then show ?case by simp
next
  case (Cons a x)
  obtain q qs where q: "split_on sep x = q # qs"
    using split_on_not_Nil [of sep x] by (cases "split_on sep x") auto
  show ?case
  proof (cases "a = sep")
    case True
    with Cons.prems q show ?thesis by simp
  next
    case False
    with Cons.prems q have "d = a # q" and "qs = []" by auto
    with q Cons.IH [of q] show ?thesis by simp
  qed
qed

lemma split_on_two: "split_on sep s = [l, d] \<Longrightarrow> s = l @ sep # d"
proof (induction s arbitrary: l)
  case Nil
  then show ?case by simp
next
  case (Cons c s)
  show ?case
  proof (cases "c = sep")
    case True
    with Cons.prems have l: "l = []" and d: "split_on sep s = [d]" by auto
    from d have "s = d" by (rule split_on_one)
    with True l show ?thesis by simp
  next
    case False
    obtain q qs where q: "split_on sep s = q # qs"
      using split_on_not_Nil [of sep s] by (cases "split_on sep s") auto
    with False Cons.prems have "l = c # q" and "qs = [d]" by auto
    with q have "s = q @ sep # d" using Cons.IH [of q] by simp
    with \<open>l = c # q\<close> show ?thesis by simp
  qed
qed

lemma decimal_14: "decimal 14 = ''14''"
  by (simp add: decimal.simps digit_char_def)

lemma decimal_later: "decimal 1700000000002 = ''1700000000002''"
  by (simp add: decimal.simps digit_char_def)

lemma ticking_resolved: "getMxHosts (ticking (world two_hosts net)) d =
    ([''mx1.example.org'', ''mx2.example.org''], [Dns_mx d])"
  by (simp add: getMxHosts_def ticking_def world_def two_hosts_def strip_root_dot_def)

lemma ticking_probe: "probe (ticking (world two_hosts accept_all)) log h ''me@x.org'' t
   = Some \<lparr>host = h, rcpt = \<lparr>code = 250, message = ''250 ok''\<rparr>\<rparr>"
  by (simp add: probe_def ticking_def world_def accept_all_def probe_250)

lemma ticking_clock: "dateNow (ticking e) [a, b] = 1700000000002 \<and> random1000 (ticking e) [a, b] = 14"
  by (simp add: ticking_def)

lemma world_clock: "dateNow (world mx net) log = 1700000000000 \<and> random1000 (world mx net) log = 42"
  by (simp add: world_def)

lemma random_user_42: "randomUser 1700000000000 42 = ''catchall_test_1700000000000_42''"
  by (simp add: randomUser_def decimal_now decimal_42)

lemma random_user_14: "randomUser 1700000000002 14 = ''catchall_test_1700000000002_14''"
  by (simp add: randomUser_def decimal_later decimal_14)

text \<open>
  \<^bold>\<open>C1\<close>: let the loop of \<^verbatim>\<open>verifyEmail\<close> reach the host \<open>h\<close> (the hosts \<open>pre\<close> before it
  were probed for the real recipient and none of their codes ended the loop), and let the
  probe of \<open>h\<close> for the real recipient return a code in [200,300). Then exactly one more
  session is run, with the same host, for a recipient generated at that moment; the
  result is \<^verbatim>\<open>catch_all\<close> if its code is in [200,300) too and \<^verbatim>\<open>valid\<close> otherwise; and
  these two sessions are the last effects, so none of the hosts \<open>post\<close> is consulted.
  The generated recipient is \<^verbatim>\<open>catchall_test_<now>_<rand>@<domain>\<close>, where \<open>now\<close> is
  \<^verbatim>\<open>Date.now()\<close> and \<open>rand\<close> is \<^verbatim>\<open>Math.floor(Math.random() * 1000)\<close>, both read after the
  first probe and written in decimal digits that spell them. So the recipient determines
  \<open>now\<close> and \<open>rand\<close>: generated at another time or from another random number it is
  another recipient. Split on \<^verbatim>\<open>@\<close> it has the generated local part and the domain of
  the address under verification, and it is the real recipient only if the real local
  part is the generated one.
\<close>
theorem catch_all_reprobe:
  assumes "split_on (CHR ''@'') email = [l, d]" and "toLowerCase l \<notin> set roleBased"
    and "getMxHosts e d = (hosts, dlog)" and "hosts = pre @ h # post"
    and "d \<notin> disposableDomains"
    and "\<forall>i<length pre. \<exists>r. probe e (dlog @ real_probes f email (take i pre)) (pre ! i) f email = Some r
              \<and> \<not> conclusive (code (rcpt r))"
    and "log = dlog @ real_probes f email pre"
    and "probe e log h f email = Some r1" and "in_range 200 300 (code (rcpt r1))"
    and "now = dateNow e (log @ [Smtp h 25 f email])"
    and "rand = random1000 e (log @ [Smtp h 25 f email])"
    and "fakeEmail = randomUser now rand @ ''@'' @ d"
  shows "(\<exists>r2. probe e (log @ [Smtp h 25 f email]) h f fakeEmail = Some r2
       \<and> verifyEmail e email f =
           Some (if in_range 200 300 (code (rcpt r2)) then Catch_all else Valid,
                 log @ [Smtp h 25 f email, Smtp h 25 f fakeEmail]))
     \<and> fakeEmail = ''catchall_test_'' @ decimal now @ ''_'' @ decimal rand @ ''@'' @ d
     \<and> decimal_value (decimal now) = now \<and> decimal_value (decimal rand) = rand
     \<and> (\<forall>c \<in> set (decimal now @ decimal rand). is_digit c)
     \<and> (\<forall>now' rand'. randomUser now' rand' @ ''@'' @ d = fakeEmail \<longrightarrow> now' = now \<and> rand' = rand)
     \<and> split_on (CHR ''@'') fakeEmail = [randomUser now rand, d]
     \<and> (fakeEmail = email \<longleftrightarrow> l = randomUser now rand)"
proof -
  let ?log1 = "log @ [Smtp h 25 f email]"
  have fk: "fakeEmail = randomUser (dateNow e ?log1) (random1000 e ?log1) @ ''@'' @ d"
    unfolding assms(12) assms(10) assms(11) ..
  obtain r2 where r2: "probe e ?log1 h f fakeEmail = Some r2"
    using probe_total by blast
  have "verifyEmail e email f = probe_hosts e email f d dlog (pre @ h # post)"
    using assms(1-5) by (simp add: verifyEmail_loop)
  also have "\<dots> = probe_hosts e email f d log (h # post)"
    unfolding assms(7) by (rule probe_hosts_pass) (rule assms(6))
  also have "\<dots> = Some (if in_range 200 300 (code (rcpt r2)) then Catch_all else Valid,
               log @ [Smtp h 25 f email, Smtp h 25 f fakeEmail])"
    using assms(8,9) r2 unfolding fk by (rule probe_hosts_accept)
  finally have A: "\<exists>r2. probe e ?log1 h f fakeEmail = Some r2
       \<and> verifyEmail e email f =
           Some (if in_range 200 300 (code (rcpt r2)) then Catch_all else Valid,
                 log @ [Smtp h 25 f email, Smtp h 25 f fakeEmail])"
    using r2 by blast
  have B: "fakeEmail = ''catchall_test_'' @ decimal now @ ''_'' @ decimal rand @ ''@'' @ d"
    by (simp add: assms(12) randomUser_def)
  have C: "decimal_value (decimal now) = now" "decimal_value (decimal rand) = rand"
    by (rule decimal_value_decimal)+
  have D: "\<forall>c \<in> set (decimal now @ decimal rand). is_digit c"
    by (auto dest: decimal_digits)
  have E: "\<forall>now' rand'. randomUser now' rand' @ ''@'' @ d = fakeEmail \<longrightarrow> now' = now \<and> rand' = rand"
  proof (intro allI impI)
    fix now' rand' assume "randomUser now' rand' @ ''@'' @ d = fakeEmail"
    then have "randomUser now' rand' = randomUser now rand" by (simp add: assms(12))
    then show "now' = now \<and> rand' = rand" by (rule randomUser_inj)
  qed
  have dat: "CHR ''@'' \<notin> set d"
    using split_on_parts [of d "CHR ''@''" email] assms(1) by simp
  have F: "split_on (CHR ''@'') fakeEmail = [randomUser now rand, d]"
    by (simp add: assms(12) split_on_append randomUser_no_at split_on_no_sep dat)
  have em: "email = l @ CHR ''@'' # d" using assms(1) by (rule split_on_two)
  have G: "fakeEmail = email \<longleftrightarrow> l = randomUser now rand"
    unfolding em assms(12) by auto
  from A B C D E F G show ?thesis by (intro conjI)
qed

text \<open>A first host that accepts every recipient; a second host, reached after a silent
  first one, that accepts the real recipient only; and the first world again with a clock
  and a random number that move, where the generated recipient is another one.\<close>
theorem catch_all_reprobe_witness:
  "probe (world two_hosts accept_all) [Dns_mx ''example.org''] ''mx1.example.org'' ''me@x.org'' ''bob@example.org''
     = Some \<lparr>host = ''mx1.example.org'', rcpt = \<lparr>code = 250, message = ''250 ok''\<rparr>\<rparr>
   \<and> verifyEmail (world two_hosts accept_all) ''bob@example.org'' ''me@x.org'' =
       Some (Catch_all,
         [Dns_mx ''example.org'',
          Smtp ''mx1.example.org'' 25 ''me@x.org'' ''bob@example.org'',
          Smtp ''mx1.example.org'' 25 ''me@x.org'' ''catchall_test_1700000000000_42@example.org''])
   \<and> probe (world two_hosts silent_then_selective)
        [Dns_mx ''example.org'', Smtp ''mx1.example.org'' 25 ''me@x.org'' ''bob@example.org'']
        ''mx2.example.org'' ''me@x.org'' ''bob@example.org''
     = Some \<lparr>host = ''mx2.example.org'', rcpt = \<lparr>code = 250, message = ''250 ok''\<rparr>\<rparr>
   \<and> verifyEmail (world two_hosts silent_then_selective) ''bob@example.org'' ''me@x.org'' =
       Some (Valid,
         [Dns_mx ''example.org'',
          Smtp ''mx1.example.org'' 25 ''me@x.org'' ''bob@example.org'',
          Smtp ''mx2.example.org'' 25 ''me@x.org'' ''bob@example.org'',
          Smtp ''mx2.example.org'' 25 ''me@x.org'' ''catchall_test_1700000000000_42@example.org''])
   \<and> verifyEmail (ticking (world two_hosts accept_all)) ''bob@example.org'' ''me@x.org'' =
       Some (Catch_all,
         [Dns_mx ''example.org'',
          Smtp ''mx1.example.org'' 25 ''me@x.org'' ''bob@example.org'',
          Smtp ''mx1.example.org'' 25 ''me@x.org'' ''catchall_test_1700000000002_14@example.org''])
   \<and> split_on (CHR ''@'') ''catchall_test_1700000000002_14@example.org'' =
       [''catchall_test_1700000000002_14'', ''example.org'']
   \<and> decimal_value ''1700000000002'' = 1700000000002
   \<and> randomUser 1700000000000 42 @ ''@'' @ ''example.org'' \<noteq> ''catchall_test_1700000000002_14@example.org''
   \<and> ''catchall_test_1700000000002_14@example.org'' \<noteq> ''bob@example.org''"
proof -
  let ?f = "''me@x.org''" and ?email = "''bob@example.org''"
  let ?fake = "''catchall_test_1700000000000_42@example.org''"
  let ?later = "''catchall_test_1700000000002_14@example.org''"
  let ?A = "world two_hosts accept_all" and ?S = "world two_hosts silent_then_selective"
  let ?T = "ticking (world two_hosts accept_all)"
  have a: "(\<exists>r2. probe ?A ([Dns_mx ''example.org''] @ [Smtp ''mx1.example.org'' 25 ?f ?email]) ''mx1.example.org'' ?f ?fake = Some r2
       \<and> verifyEmail ?A ?email ?f =
           Some (if in_range 200 300 (code (rcpt r2)) then Catch_all else Valid,
                 [Dns_mx ''example.org''] @ [Smtp ''mx1.example.org'' 25 ?f ?email, Smtp ''mx1.example.org'' 25 ?f ?fake]))
     \<and> ?fake = ''catchall_test_'' @ decimal 1700000000000 @ ''_'' @ decimal 42 @ ''@'' @ ''example.org''
     \<and> decimal_value (decimal 1700000000000) = 1700000000000 \<and> decimal_value (decimal 42) = 42
     \<and> (\<forall>c \<in> set (decimal 1700000000000 @ decimal 42). is_digit c)
     \<and> (\<forall>now' rand'. randomUser now' rand' @ ''@'' @ ''example.org'' = ?fake \<longrightarrow> now' = 1700000000000 \<and> rand' = 42)
     \<and> split_on (CHR ''@'') ?fake = [randomUser 1700000000000 42, ''example.org'']
     \<and> (?fake = ?email \<longleftrightarrow> ''bob'' = randomUser 1700000000000 42)"
    by (rule catch_all_reprobe [where l = "''bob''" and d = "''example.org''" and pre = "[]"
          and post = "[''mx2.example.org'']" and dlog = "[Dns_mx ''example.org'']"
          and hosts = "[''mx1.example.org'', ''mx2.example.org'']"
          and ?r1.0 = "\<lparr>host = ''mx1.example.org'', rcpt = \<lparr>code = 250, message = ''250 ok''\<rparr>\<rparr>"])
       (simp_all only: bob_split bob_not_role example_not_disposable two_hosts_resolved ticking_resolved,
        simp_all add: in_range_def conclusive_def accept_all_probe world_clock random_user_42)
  have s: "(\<exists>r2. probe ?S ([Dns_mx ''example.org'', Smtp ''mx1.example.org'' 25 ?f ?email] @ [Smtp ''mx2.example.org'' 25 ?f ?email]) ''mx2.example.org'' ?f ?fake = Some r2
       \<and> verifyEmail ?S ?email ?f =
           Some (if in_range 200 300 (code (rcpt r2)) then Catch_all else Valid,
                 [Dns_mx ''example.org'', Smtp ''mx1.example.org'' 25 ?f ?email] @ [Smtp ''mx2.example.org'' 25 ?f ?email, Smtp ''mx2.example.org'' 25 ?f ?fake]))
     \<and> ?fake = ''catchall_test_'' @ decimal 1700000000000 @ ''_'' @ decimal 42 @ ''@'' @ ''example.org''
     \<and> decimal_value (decimal 1700000000000) = 1700000000000 \<and> decimal_value (decimal 42) = 42
     \<and> (\<forall>c \<in> set (decimal 1700000000000 @ decimal 42). is_digit c)
     \<and> (\<forall>now' rand'. randomUser now' rand' @ ''@'' @ ''example.org'' = ?fake \<longrightarrow> now' = 1700000000000 \<and> rand' = 42)
     \<and> split_on (CHR ''@'') ?fake = [randomUser 1700000000000 42, ''example.org'']
     \<and> (?fake = ?email \<longleftrightarrow> ''bob'' = randomUser 1700000000000 42)"
    by (rule catch_all_reprobe [where l = "''bob''" and d = "''example.org''" and pre = "[''mx1.example.org'']"
          and post = "[]" and dlog = "[Dns_mx ''example.org'']"
          and hosts = "[''mx1.example.org'', ''mx2.example.org'']"
          and ?r1.0 = "\<lparr>host = ''mx2.example.org'', rcpt = \<lparr>code = 250, message = ''250 ok''\<rparr>\<rparr>"])
       (simp_all only: bob_split bob_not_role example_not_disposable two_hosts_resolved ticking_resolved,
        simp_all add: in_range_def conclusive_def selective_mx1 selective_mx2_real world_clock random_user_42)
  have t: "(\<exists>r2. probe ?T ([Dns_mx ''example.org''] @ [Smtp ''mx1.example.org'' 25 ?f ?email]) ''mx1.example.org'' ?f ?later = Some r2
       \<and> verifyEmail ?T ?email ?f =
           Some (if in_range 200 300 (code (rcpt r2)) then Catch_all else Valid,
                 [Dns_mx ''example.org''] @ [Smtp ''mx1.example.org'' 25 ?f ?email, Smtp ''mx1.example.org'' 25 ?f ?later]))
     \<and> ?later = ''catchall_test_'' @ decimal 1700000000002 @ ''_'' @ decimal 14 @ ''@'' @ ''example.org''
     \<and> decimal_value (decimal 1700000000002) = 1700000000002 \<and> decimal_value (decimal 14) = 14
     \<and> (\<forall>c \<in> set (decimal 1700000000002 @ decimal 14). is_digit c)
     \<and> (\<forall>now' rand'. randomUser now' rand' @ ''@'' @ ''example.org'' = ?later \<longrightarrow> now' = 1700000000002 \<and> rand' = 14)
     \<and> split_on (CHR ''@'') ?later = [randomUser 1700000000002 14, ''example.org'']
     \<and> (?later = ?email \<longleftrightarrow> ''bob'' = randomUser 1700000000002 14)"
    by (rule catch_all_reprobe [where l = "''bob''" and d = "''example.org''" and pre = "[]"
          and post = "[''mx2.example.org'']" and dlog = "[Dns_mx ''example.org'']"
          and hosts = "[''mx1.example.org'', ''mx2.example.org'']"
          and ?r1.0 = "\<lparr>host = ''mx1.example.org'', rcpt = \<lparr>code = 250, message = ''250 ok''\<rparr>\<rparr>"])
       (simp_all only: bob_split bob_not_role example_not_disposable two_hosts_resolved ticking_resolved,
        simp_all add: in_range_def conclusive_def ticking_probe ticking_clock random_user_14)
  from a have a': "verifyEmail ?A ?email ?f = Some (Catch_all,
         [Dns_mx ''example.org'', Smtp ''mx1.example.org'' 25 ?f ?email, Smtp ''mx1.example.org'' 25 ?f ?fake])"
    by (simp add: accept_all_probe in_range_def)
  from s have s': "verifyEmail ?S ?email ?f = Some (Valid,
         [Dns_mx ''example.org'', Smtp ''mx1.example.org'' 25 ?f ?email,
          Smtp ''mx2.example.org'' 25 ?f ?email, Smtp ''mx2.example.org'' 25 ?f ?fake])"
    by (simp add: selective_mx2_fake in_range_def)
  from t have t': "verifyEmail ?T ?email ?f = Some (Catch_all,
         [Dns_mx ''example.org'', Smtp ''mx1.example.org'' 25 ?f ?email, Smtp ''mx1.example.org'' 25 ?f ?later])"
    by (simp add: ticking_probe in_range_def)
  from t have sp: "split_on (CHR ''@'') ?later = [randomUser 1700000000002 14, ''example.org'']"
    by blast
  then have sp': "split_on (CHR ''@'') ?later = [''catchall_test_1700000000002_14'', ''example.org'']"
    by (simp only: random_user_14)
  from t have "decimal_value (decimal 1700000000002) = 1700000000002" by blast
  then have dv: "decimal_value ''1700000000002'' = 1700000000002" by (simp only: decimal_later)
  from t have inj: "\<forall>now' rand'. randomUser now' rand' @ ''@'' @ ''example.org'' = ?later \<longrightarrow>
      now' = 1700000000002 \<and> rand' = 14"
    by blast
  have ne: "randomUser 1700000000000 42 @ ''@'' @ ''example.org'' \<noteq> ?later"
  proof
    assume "randomUser 1700000000000 42 @ ''@'' @ ''example.org'' = ?later"
    with inj have "(1700000000000 :: nat) = 1700000000002 \<and> (42 :: nat) = 14" by blast
    then show False by simp
  qed
  from t have "?later = ?email \<longleftrightarrow> ''bob'' = randomUser 1700000000002 14" by blast
  then have nb: "?later \<noteq> ?email" by (simp add: random_user_14)
  from a' s' t' sp' dv ne nb show ?thesis
    by (simp only: accept_all_probe selective_mx2_real simp_thms)
qed

text \<open>
  \<^bold>\<open>C2\<close>, as the spec states it: the first host whose probe yields a nonzero code decides,
  and no later host is probed. On the code, the first host here answers RCPT TO with 354,
  a nonzero code in none of the three ranges the loop tests; the loop goes on, the second
  host is probed, and its 550 decides.
\<close>
theorem first_coded_reply_counterexample:
  "probe (world two_hosts odd_then_reject) [Dns_mx ''example.org''] ''mx1.example.org'' ''me@x.org'' ''bob@example.org''
     = Some \<lparr>host = ''mx1.example.org'', rcpt = \<lparr>code = 354, message = ''354 go ahead''\<rparr>\<rparr>
   \<and> verifyEmail (world two_hosts odd_then_reject) ''bob@example.org'' ''me@x.org'' =
       Some (Invalid,
         [Dns_mx ''example.org'',
          Smtp ''mx1.example.org'' 25 ''me@x.org'' ''bob@example.org'',
          Smtp ''mx2.example.org'' 25 ''me@x.org'' ''bob@example.org''])"
proof -
  have "verifyEmail (world two_hosts odd_then_reject) ''bob@example.org'' ''me@x.org'' =
     probe_hosts (world two_hosts odd_then_reject) ''bob@example.org'' ''me@x.org'' ''example.org''
       [Dns_mx ''example.org''] [''mx1.example.org'', ''mx2.example.org'']"
    by (rule verifyEmail_loop [where l = "''bob''"]) (simp_all add: bob_split bob_not_role example_not_disposable two_hosts_resolved)
  also have "\<dots> = Some (Invalid,
         [Dns_mx ''example.org'',
          Smtp ''mx1.example.org'' 25 ''me@x.org'' ''bob@example.org'',
          Smtp ''mx2.example.org'' 25 ''me@x.org'' ''bob@example.org''])"
    by (simp add: odd_mx1 odd_mx2 in_range_def)
  finally show ?thesis by (simp only: odd_mx1 simp_thms)
qed

text \<open>
  \<^bold>\<open>C2\<close>, amended: the first host, in resolution order, whose probe yields a code in
  [200,300) or [400,600) decides the classification. When the loop reaches the host \<open>h\<close>:
  a code in [500,600) yields \<^verbatim>\<open>invalid\<close> and a code in [400,500) yields \<^verbatim>\<open>unknown\<close>, in
  both cases with the probe of \<open>h\<close> as the last effect, so no later host is probed; any
  other code outside [200,300), zero or not, lets the loop go on with the next host.
\<close>
theorem conclusive_rejection:
  assumes "split_on (CHR ''@'') email = [l, d]" and "toLowerCase l \<notin> set roleBased"
    and "getMxHosts e d = (hosts, dlog)" and "hosts = pre @ h # post"
    and "d \<notin> disposableDomains"
    and "\<forall>i<length pre. \<exists>r. probe e (dlog @ real_probes f email (take i pre)) (pre ! i) f email = Some r
              \<and> \<not> conclusive (code (rcpt r))"
    and "log = dlog @ real_probes f email pre"
    and "probe e log h f email = Some r"
  shows "(in_range 500 600 (code (rcpt r)) \<longrightarrow>
            verifyEmail e email f = Some (Invalid, log @ [Smtp h 25 f email]))
       \<and> (in_range 400 500 (code (rcpt r)) \<longrightarrow>
            verifyEmail e email f = Some (Unknown, log @ [Smtp h 25 f email]))
       \<and> (\<not> conclusive (code (rcpt r)) \<longrightarrow>
            verifyEmail e email f = probe_hosts e email f d (log @ [Smtp h 25 f email]) post)"
proof -
  have "verifyEmail e email f = probe_hosts e email f d dlog (pre @ h # post)"
    using assms(1-5) by (simp add: verifyEmail_loop)
  also have "\<dots> = probe_hosts e email f d log (h # post)"
    unfolding assms(7) by (rule probe_hosts_pass) (rule assms(6))
  finally have v: "verifyEmail e email f = probe_hosts e email f d log (h # post)" .
  show ?thesis
    unfolding v
    using probe_hosts_reject [OF assms(8)] probe_hosts_defer [OF assms(8)] probe_hosts_passed [OF assms(8)]
    by blast
qed

text \<open>A second host that rejects after a first one that answers 354, and a first host
  that defers.\<close>
theorem conclusive_rejection_witness:
  "verifyEmail (world two_hosts odd_then_reject) ''bob@example.org'' ''me@x.org'' =
       Some (Invalid,
         [Dns_mx ''example.org'',
          Smtp ''mx1.example.org'' 25 ''me@x.org'' ''bob@example.org'',
          Smtp ''mx2.example.org'' 25 ''me@x.org'' ''bob@example.org''])
   \<and> verifyEmail (world two_hosts try_later) ''bob@example.org'' ''me@x.org'' =
       Some (Unknown,
         [Dns_mx ''example.org'',
          Smtp ''mx1.example.org'' 25 ''me@x.org'' ''bob@example.org''])
   \<and> verifyEmail (world two_hosts odd_then_reject) ''bob@example.org'' ''me@x.org'' =
       probe_hosts (world two_hosts odd_then_reject) ''bob@example.org'' ''me@x.org'' ''example.org''
         [Dns_mx ''example.org'', Smtp ''mx1.example.org'' 25 ''me@x.org'' ''bob@example.org'']
         [''mx2.example.org'']"
proof -
  let ?f = "''me@x.org''" and ?email = "''bob@example.org''"
  let ?O = "world two_hosts odd_then_reject" and ?L = "world two_hosts try_later"
  note inst = conclusive_rejection [where email = ?email and f = ?f and l = "''bob''"
      and d = "''example.org''" and dlog = "[Dns_mx ''example.org'']"
      and hosts = "[''mx1.example.org'', ''mx2.example.org'']"]
  have o: "(in_range 500 600 (code (rcpt \<lparr>host = ''mx2.example.org'', rcpt = \<lparr>code = 550, message = ''550 no such user''\<rparr>\<rparr>)) \<longrightarrow>
            verifyEmail ?O ?email ?f = Some (Invalid, [Dns_mx ''example.org'', Smtp ''mx1.example.org'' 25 ?f ?email] @ [Smtp ''mx2.example.org'' 25 ?f ?email]))
       \<and> (in_range 400 500 (code (rcpt \<lparr>host = ''mx2.example.org'', rcpt = \<lparr>code = 550, message = ''550 no such user''\<rparr>\<rparr>)) \<longrightarrow>
            verifyEmail ?O ?email ?f = Some (Unknown, [Dns_mx ''example.org'', Smtp ''mx1.example.org'' 25 ?f ?email] @ [Smtp ''mx2.example.org'' 25 ?f ?email]))
       \<and> (\<not> conclusive (code (rcpt \<lparr>host = ''mx2.example.org'', rcpt = \<lparr>code = 550, message = ''550 no such user''\<rparr>\<rparr>)) \<longrightarrow>
            verifyEmail ?O ?email ?f = probe_hosts ?O ?email ?f ''example.org''
              ([Dns_mx ''example.org'', Smtp ''mx1.example.org'' 25 ?f ?email] @ [Smtp ''mx2.example.org'' 25 ?f ?email]) [])"
    by (rule inst [where pre = "[''mx1.example.org'']" and post = "[]"])
       (simp_all only: bob_split bob_not_role example_not_disposable two_hosts_resolved odd_mx2, simp_all add: in_range_def conclusive_def odd_mx1)
  have o1: "(in_range 500 600 (code (rcpt \<lparr>host = ''mx1.example.org'', rcpt = \<lparr>code = 354, message = ''354 go ahead''\<rparr>\<rparr>)) \<longrightarrow>
            verifyEmail ?O ?email ?f = Some (Invalid, [Dns_mx ''example.org''] @ [Smtp ''mx1.example.org'' 25 ?f ?email]))
       \<and> (in_range 400 500 (code (rcpt \<lparr>host = ''mx1.example.org'', rcpt = \<lparr>code = 354, message = ''354 go ahead''\<rparr>\<rparr>)) \<longrightarrow>
            verifyEmail ?O ?email ?f = Some (Unknown, [Dns_mx ''example.org''] @ [Smtp ''mx1.example.org'' 25 ?f ?email]))
       \<and> (\<not> conclusive (code (rcpt \<lparr>host = ''mx1.example.org'', rcpt = \<lparr>code = 354, message = ''354 go ahead''\<rparr>\<rparr>)) \<longrightarrow>
            verifyEmail ?O ?email ?f = probe_hosts ?O ?email ?f ''example.org''
              ([Dns_mx ''example.org''] @ [Smtp ''mx1.example.org'' 25 ?f ?email]) [''mx2.example.org''])"
    by (rule inst [where pre = "[]" and post = "[''mx2.example.org'']"])
       (simp_all only: bob_split bob_not_role example_not_disposable two_hosts_resolved odd_mx1, simp_all add: in_range_def conclusive_def)
  have t: "(in_range 500 600 (code (rcpt \<lparr>host = ''mx1.example.org'', rcpt = \<lparr>code = 450, message = ''450 try again later''\<rparr>\<rparr>)) \<longrightarrow>
            verifyEmail ?L ?email ?f = Some (Invalid, [Dns_mx ''example.org''] @ [Smtp ''mx1.example.org'' 25 ?f ?email]))
       \<and> (in_range 400 500 (code (rcpt \<lparr>host = ''mx1.example.org'', rcpt = \<lparr>code = 450, message = ''450 try again later''\<rparr>\<rparr>)) \<longrightarrow>
            verifyEmail ?L ?email ?f = Some (Unknown, [Dns_mx ''example.org''] @ [Smtp ''mx1.example.org'' 25 ?f ?email]))
       \<and> (\<not> conclusive (code (rcpt \<lparr>host = ''mx1.example.org'', rcpt = \<lparr>code = 450, message = ''450 try again later''\<rparr>\<rparr>)) \<longrightarrow>
            verifyEmail ?L ?email ?f = probe_hosts ?L ?email ?f ''example.org''
              ([Dns_mx ''example.org''] @ [Smtp ''mx1.example.org'' 25 ?f ?email]) [''mx2.example.org''])"
    by (rule inst [where pre = "[]" and post = "[''mx2.example.org'']"])
       (simp_all only: bob_split bob_not_role example_not_disposable two_hosts_resolved try_later_probe, simp_all add: in_range_def conclusive_def)
  from o have o': "verifyEmail ?O ?email ?f = Some (Invalid,
      [Dns_mx ''example.org'', Smtp ''mx1.example.org'' 25 ?f ?email, Smtp ''mx2.example.org'' 25 ?f ?email])"
    by (simp add: in_range_def conclusive_def)
  from t have t': "verifyEmail ?L ?email ?f = Some (Unknown,
      [Dns_mx ''example.org'', Smtp ''mx1.example.org'' 25 ?f ?email])"
    by (simp add: in_range_def conclusive_def)
  from o1 have o1': "verifyEmail ?O ?email ?f = probe_hosts ?O ?email ?f ''example.org''
         [Dns_mx ''example.org'', Smtp ''mx1.example.org'' 25 ?f ?email] [''mx2.example.org'']"
    by (simp add: in_range_def conclusive_def)
  from o' t' o1' show ?thesis by (intro conjI)
qed

text \<open>
  \<^bold>\<open>C3\<close>: when the probes of the hosts \<open>pre\<close> all return code 0, \<^verbatim>\<open>verifyEmail\<close> goes on
  with the remaining hosts \<open>post\<close>, after exactly these probes. If no host remains, so
  every host returned code 0, the result is \<^verbatim>\<open>unknown\<close>. If one host remains and it
  answers 250 to the real recipient and 550 to the generated one, the result is
  \<^verbatim>\<open>valid\<close>.
\<close>
theorem no_reply_falls_through:
  assumes "split_on (CHR ''@'') email = [l, d]" and "toLowerCase l \<notin> set roleBased"
    and "getMxHosts e d = (hosts, dlog)" and "hosts = pre @ post" and "hosts \<noteq> []"
    and "d \<notin> disposableDomains"
    and "\<forall>i<length pre. \<exists>r. probe e (dlog @ real_probes f email (take i pre)) (pre ! i) f email = Some r
              \<and> code (rcpt r) = 0"
    and "log = dlog @ real_probes f email pre"
  shows "verifyEmail e email f = probe_hosts e email f d log post
       \<and> (post = [] \<longrightarrow> verifyEmail e email f = Some (Unknown, log))
       \<and> (post = [h2] \<and> probe e log h2 f email = Some r1 \<and> code (rcpt r1) = 250
            \<and> fakeEmail = randomUser (dateNow e (log @ [Smtp h2 25 f email])) (random1000 e (log @ [Smtp h2 25 f email])) @ ''@'' @ d
            \<and> probe e (log @ [Smtp h2 25 f email]) h2 f fakeEmail = Some r2 \<and> code (rcpt r2) = 550
          \<longrightarrow> verifyEmail e email f = Some (Valid, log @ [Smtp h2 25 f email, Smtp h2 25 f fakeEmail]))"
proof -
  have p: "\<forall>i<length pre. \<exists>r. probe e (dlog @ real_probes f email (take i pre)) (pre ! i) f email = Some r
              \<and> \<not> conclusive (code (rcpt r))"
    using assms(7) by (auto simp: in_range_def conclusive_def)
  have "verifyEmail e email f = probe_hosts e email f d dlog (pre @ post)"
    using assms(1-6) by (simp add: verifyEmail_loop)
  also have "\<dots> = probe_hosts e email f d log post"
    unfolding assms(8) by (rule probe_hosts_pass) (rule p)
  finally have v: "verifyEmail e email f = probe_hosts e email f d log post" .
  have u: "post = [] \<longrightarrow> verifyEmail e email f = Some (Unknown, log)"
    unfolding v by simp
  have w: "post = [h2] \<and> probe e log h2 f email = Some r1 \<and> code (rcpt r1) = 250
            \<and> fakeEmail = randomUser (dateNow e (log @ [Smtp h2 25 f email])) (random1000 e (log @ [Smtp h2 25 f email])) @ ''@'' @ d
            \<and> probe e (log @ [Smtp h2 25 f email]) h2 f fakeEmail = Some r2 \<and> code (rcpt r2) = 550
          \<longrightarrow> verifyEmail e email f = Some (Valid, log @ [Smtp h2 25 f email, Smtp h2 25 f fakeEmail])"
    unfolding v by (auto simp: Let_def in_range_def)
  from v u w show ?thesis by (intro conjI)
qed

text \<open>Two hosts, the first silent and the second answering 250 and 550; and two silent
  hosts.\<close>
theorem no_reply_falls_through_witness:
  "probe (world two_hosts silent_then_selective) [Dns_mx ''example.org''] ''mx1.example.org'' ''me@x.org'' ''bob@example.org''
     = Some \<lparr>host = ''mx1.example.org'', rcpt = \<lparr>code = 0, message = ''timeout''\<rparr>\<rparr>
   \<and> verifyEmail (world two_hosts silent_then_selective) ''bob@example.org'' ''me@x.org'' =
       Some (Valid,
         [Dns_mx ''example.org'',
          Smtp ''mx1.example.org'' 25 ''me@x.org'' ''bob@example.org'',
          Smtp ''mx2.example.org'' 25 ''me@x.org'' ''bob@example.org'',
          Smtp ''mx2.example.org'' 25 ''me@x.org'' ''catchall_test_1700000000000_42@example.org''])
   \<and> verifyEmail (world two_hosts (\<lambda>h t. [])) ''bob@example.org'' ''me@x.org'' =
       Some (Unknown,
         [Dns_mx ''example.org'',
          Smtp ''mx1.example.org'' 25 ''me@x.org'' ''bob@example.org'',
          Smtp ''mx2.example.org'' 25 ''me@x.org'' ''bob@example.org''])"
proof -
  let ?f = "''me@x.org''" and ?email = "''bob@example.org''"
  let ?fake = "''catchall_test_1700000000000_42@example.org''"
  let ?S = "world two_hosts silent_then_selective" and ?N = "world two_hosts (\<lambda>h t. [])"
  let ?r1 = "\<lparr>host = ''mx2.example.org'', rcpt = \<lparr>code = 250, message = ''250 ok''\<rparr>\<rparr>"
  let ?r2 = "\<lparr>host = ''mx2.example.org'', rcpt = \<lparr>code = 550, message = ''550 no such user''\<rparr>\<rparr>"
  have none: "probe ?N log h ?f t = Some \<lparr>host = h, rcpt = \<lparr>code = 0, message = ''timeout''\<rparr>\<rparr>" for log h t
    by (simp add: probe_def world_def probe_silent)
  note inst = no_reply_falls_through [where email = ?email and f = ?f and l = "''bob''"
      and d = "''example.org''" and dlog = "[Dns_mx ''example.org'']"
      and hosts = "[''mx1.example.org'', ''mx2.example.org'']"]
  let ?log = "[Dns_mx ''example.org'', Smtp ''mx1.example.org'' 25 ?f ?email]"
  have s: "verifyEmail ?S ?email ?f = probe_hosts ?S ?email ?f ''example.org'' ?log [''mx2.example.org'']
       \<and> ([''mx2.example.org''] = [] \<longrightarrow> verifyEmail ?S ?email ?f = Some (Unknown, ?log))
       \<and> ([''mx2.example.org''] = [''mx2.example.org''] \<and> probe ?S ?log ''mx2.example.org'' ?f ?email = Some ?r1 \<and> code (rcpt ?r1) = 250
            \<and> ?fake = randomUser (dateNow ?S (?log @ [Smtp ''mx2.example.org'' 25 ?f ?email])) (random1000 ?S (?log @ [Smtp ''mx2.example.org'' 25 ?f ?email])) @ ''@'' @ ''example.org''
            \<and> probe ?S (?log @ [Smtp ''mx2.example.org'' 25 ?f ?email]) ''mx2.example.org'' ?f ?fake = Some ?r2 \<and> code (rcpt ?r2) = 550
          \<longrightarrow> verifyEmail ?S ?email ?f = Some (Valid, ?log @ [Smtp ''mx2.example.org'' 25 ?f ?email, Smtp ''mx2.example.org'' 25 ?f ?fake]))"
    by (rule inst [where pre = "[''mx1.example.org'']" and post = "[''mx2.example.org'']"])
       (simp_all only: bob_split bob_not_role example_not_disposable two_hosts_resolved, simp_all add: selective_mx1)
  have n: "verifyEmail ?N ?email ?f = probe_hosts ?N ?email ?f ''example.org''
            ([Dns_mx ''example.org'', Smtp ''mx1.example.org'' 25 ?f ?email, Smtp ''mx2.example.org'' 25 ?f ?email]) []
       \<and> ([] = ([] :: string list) \<longrightarrow> verifyEmail ?N ?email ?f = Some (Unknown, [Dns_mx ''example.org'', Smtp ''mx1.example.org'' 25 ?f ?email, Smtp ''mx2.example.org'' 25 ?f ?email]))
       \<and> ([] = [h2] \<and> probe ?N [Dns_mx ''example.org'', Smtp ''mx1.example.org'' 25 ?f ?email, Smtp ''mx2.example.org'' 25 ?f ?email] h2 ?f ?email = Some r1 \<and> code (rcpt r1) = 250
            \<and> fakeEmail = randomUser (dateNow ?N ([Dns_mx ''example.org'', Smtp ''mx1.example.org'' 25 ?f ?email, Smtp ''mx2.example.org'' 25 ?f ?email] @ [Smtp h2 25 ?f ?email])) (random1000 ?N ([Dns_mx ''example.org'', Smtp ''mx1.example.org'' 25 ?f ?email, Smtp ''mx2.example.org'' 25 ?f ?email] @ [Smtp h2 25 ?f ?email])) @ ''@'' @ ''example.org''
            \<and> probe ?N ([Dns_mx ''example.org'', Smtp ''mx1.example.org'' 25 ?f ?email, Smtp ''mx2.example.org'' 25 ?f ?email] @ [Smtp h2 25 ?f ?email]) h2 ?f fakeEmail = Some r2 \<and> code (rcpt r2) = 550
          \<longrightarrow> verifyEmail ?N ?email ?f = Some (Valid, [Dns_mx ''example.org'', Smtp ''mx1.example.org'' 25 ?f ?email, Smtp ''mx2.example.org'' 25 ?f ?email] @ [Smtp h2 25 ?f ?email, Smtp h2 25 ?f fakeEmail]))"
    for h2 r1 r2 fakeEmail
    by (rule inst [where pre = "[''mx1.example.org'', ''mx2.example.org'']" and post = "[]"])
       (simp_all only: bob_split bob_not_role example_not_disposable two_hosts_resolved, simp_all add: none All_less_Suc)
  from s have s': "verifyEmail ?S ?email ?f = Some (Valid,
         [Dns_mx ''example.org'', Smtp ''mx1.example.org'' 25 ?f ?email,
          Smtp ''mx2.example.org'' 25 ?f ?email, Smtp ''mx2.example.org'' 25 ?f ?fake])"
    by (simp add: selective_mx2_real selective_mx2_fake fake_address_cons in_range_def Let_def)
  from n have n': "verifyEmail ?N ?email ?f = Some (Unknown,
         [Dns_mx ''example.org'', Smtp ''mx1.example.org'' 25 ?f ?email, Smtp ''mx2.example.org'' 25 ?f ?email])"
    by simp
  show ?thesis by (simp only: selective_mx1 s' n' simp_thms)
qed

end
